theory Spec2Isabelle
  imports Main "HOL-Library.Word" "HOL-Library.AList"
begin

section \<open>Label arrays\<close>

text \<open>
  The label layers are created with \<^verbatim>\<open>dtype="uint32"\<close> (\<^verbatim>\<open>annotator_3d.py\<close>, lines
  255 to 261, and \<^verbatim>\<open>_widgets.py\<close>, line 209), so a label is a 32-bit word and the
  in-place addition of NumPy wraps around. An array is indexed along its first axis; each
  entry is the row-major list of the labels found at that index: a slice of a volume, a
  frame of a time series, or a row of a 2D image. Boolean masks and masked assignments act
  elementwise, so flattening the remaining axes does not change them; the shapes of two
  arrays are compared through the lengths of their entries.
\<close>

type_synonym label = "32 word"
type_synonym plane = "label list"
type_synonym array = "plane list"
type_synonym mask = "bool list list"

datatype error =
  KeyError | IndexError | AssertionError | AttributeError | TypeError | ValueError
  | OverflowError | RuntimeError

text \<open>Python indexing along an axis of length \<open>n\<close>: a negative index counts from the end.\<close>

definition py_index :: "nat \<Rightarrow> int \<Rightarrow> nat option" where
  "py_index n i =
    (let j = (if i < 0 then int n + i else i)
     in if 0 \<le> j \<and> j < int n then Some (nat j) else None)"

text \<open>
  The slice \<^verbatim>\<open>bb\<close> of \<^verbatim>\<open>_commit_impl\<close> is \<^verbatim>\<open>np.s_[:]\<close> or
  \<^verbatim>\<open>np.s_[z_min:(z_max+1)]\<close>; on an axis of length \<open>n\<close> it selects the indices from
  \<open>lo\<close> up to but excluding \<open>hi\<close>. The bounds of \<^verbatim>\<open>z_range\<close> are slice indices
  (natural numbers), which Python clips to the length of the axis.
\<close>

definition bounds :: "(nat \<times> nat) option \<Rightarrow> nat \<Rightarrow> nat \<times> nat" where
  "bounds bb n =
    (case bb of
       None \<Rightarrow> (0, n)
     | Some (z_min, z_max) \<Rightarrow> (min z_min n, max (min z_min n) (min (z_max + 1) n)))"

definition sub :: "nat \<times> nat \<Rightarrow> 'a list \<Rightarrow> 'a list" where
  "sub b xs = take (snd b - fst b) (drop (fst b) xs)"

text \<open>Writing through the view \<^verbatim>\<open>data[bb]\<close>: the selected entries are replaced.\<close>

definition splice :: "nat \<times> nat \<Rightarrow> 'a list \<Rightarrow> 'a list \<Rightarrow> 'a list" where
  "splice b ys xs = take (fst b) xs @ ys @ drop (snd b) xs"

text \<open>
  \<^verbatim>\<open>elf.parallel.max\<close> computes the maximum of the array block by block. Labels are
  unsigned, so the maximum is folded from 0.
\<close>

definition array_max :: "array \<Rightarrow> label" where
  "array_max a = fold max (concat a) 0"

definition shape :: "'a list list \<Rightarrow> nat list" where
  "shape a = map length a"

text \<open>\<^verbatim>\<open>seg != 0\<close>\<close>

definition not_equal_0 :: "array \<Rightarrow> mask" where
  "not_equal_0 seg = map (map (\<lambda>v. v \<noteq> 0)) seg"

text \<open>\<^verbatim>\<open>seg[mask] += id_offset\<close>, in 32-bit arithmetic.\<close>

definition add_where :: "mask \<Rightarrow> label \<Rightarrow> array \<Rightarrow> array" where
  "add_where m off seg =
    map (\<lambda>(ms, vs). map (\<lambda>(b, v). if b then v + off else v) (zip ms vs)) (zip m seg)"

text \<open>\<^verbatim>\<open>target[mask] = values[mask]\<close>, for arrays of the shape of the mask.\<close>

definition assign_where :: "mask \<Rightarrow> array \<Rightarrow> array \<Rightarrow> array" where
  "assign_where m vals target =
    map (\<lambda>(ms, vs, ts). map (\<lambda>(b, v, t). if b then v else t) (zip ms (zip vs ts)))
      (zip m (zip vals target))"

text \<open>\<^verbatim>\<open>data[data == track_id] = 0\<close>: the track id is a Python integer.\<close>

definition clear_label :: "int \<Rightarrow> plane \<Rightarrow> plane" where
  "clear_label track_id p = map (\<lambda>v. if uint v = track_id then 0 else v) p"

text \<open>\<^verbatim>\<open>seg == 1\<close>\<close>

definition equal_1 :: "plane \<Rightarrow> bool list" where
  "equal_1 seg = map (\<lambda>v. v = 1) seg"

text \<open>\<^verbatim>\<open>data[mask] = value\<close> on one entry, for a mask of the length of the entry.\<close>

definition set_where :: "bool list \<Rightarrow> label \<Rightarrow> plane \<Rightarrow> plane" where
  "set_where m c p = map (\<lambda>(b, v). if b then c else v) (zip m p)"

text \<open>
  Storing a Python integer into a \<^verbatim>\<open>uint32\<close> array: NumPy refuses a value outside
  the range of the type with an \<^verbatim>\<open>OverflowError\<close>.
\<close>

definition to_label :: "int \<Rightarrow> label option" where
  "to_label v = (if 0 \<le> v \<and> v < 2 ^ 32 then Some (word_of_int v) else None)"

section \<open>The viewer, the annotator state and the trace of external calls\<close>

text \<open>
  A lineage is a Python dictionary from a track id to the list of its children. It is an
  association list in insertion order; \<^const>\<open>AList.update\<close> is the assignment
  \<^verbatim>\<open>d[k] = v\<close> (the value of an existing key is replaced in place, a new key is
  appended) and \<^const>\<open>map_of\<close> is the lookup.
\<close>

type_synonym lineage = "(int \<times> int list) list"

datatype layer = Current_object | Auto_segmentation

text \<open>
  The automatic mask generator (AMG) is an object of another module. What the widgets see
  of it is whether it exists and which state it holds: none before \<^verbatim>\<open>initialize\<close>
  or \<^verbatim>\<open>set_state\<close>, and afterwards the state that \<^verbatim>\<open>get_state\<close> returns, an opaque
  serialisable value (a byte string here).
\<close>

type_synonym amg_blob = string

datatype amg = No_amg | Amg "amg_blob option"

text \<open>
  The AMG state cache is a dictionary with the states under integer keys (the slice
  indices) and the cache folder under the key \<^verbatim>\<open>"cache_folder"\<close>.
\<close>

record amg_cache =
  cache_folder :: "string option"
  entries :: "(int \<times> amg_blob) list"

text \<open>
  Line 636 of \<^verbatim>\<open>_widgets.py\<close> reads the attribute \<^verbatim>\<open>amge_state\<close> of the annotator
  state. The class \<^verbatim>\<open>AnnotatorState\<close> is not part of the two modules, so whether it has
  such an attribute, and what its entry \<^verbatim>\<open>"cache_path"\<close> is, is a parameter.
\<close>

datatype amge_attribute = No_attribute | Attribute "string option"

text \<open>
  The layers of the napari viewer that the widgets read and write, the track ids offered
  by the two prompt layers (\<^verbatim>\<open>property_choices["track_id"]\<close>, kept as numbers instead
  of their decimal strings), the selected layer, and the number of slices of the image
  layer \<^verbatim>\<open>raw\<close> of \<^verbatim>\<open>annotator_3d.py\<close>.
\<close>

record viewer =
  committed_objects :: array
  current_object :: array
  auto_segmentation :: array
  point_prompts_track_ids :: "int list"
  prompts_track_ids :: "int list"
  selection :: "string option"
  raw_slices :: nat

text \<open>
  The fields of the singleton \<^verbatim>\<open>AnnotatorState\<close> used by the widgets;
  \<^verbatim>\<open>tracking_widget[1]\<close> is the track-id menu with its value and choices,
  \<open>image_hw\<close> is \<^verbatim>\<open>image_shape[-2:]\<close>, and \<^verbatim>\<open>amg_state\<close> is \<^verbatim>\<open>None\<close> in the
  2D annotator.
\<close>

record annotator_state =
  z_range :: "(nat \<times> nat) option"
  current_track_id :: int
  lineage :: lineage
  committed_lineages :: "lineage list"
  track_menu_value :: int
  track_menu_choices :: "int list"
  image_hw :: "nat \<times> nat"
  amg :: amg
  amg_state :: "amg_cache option"
  amge_state :: amge_attribute

text \<open>
  Calls of functions that are not part of the two modules, and messages printed, are
  recorded in a trace, so that a property can say whether the segmenter was invoked.
\<close>

datatype event =
  Prompt_segmentation | Print_skipped
  | Amg_initialize "int option" | Amg_set_state amg_blob | Amg_generate

text \<open>
  The world of a session: the viewer, the annotator state of \<^verbatim>\<open>_widgets.py\<close>, the
  module globals \<^verbatim>\<open>AMG\<close> and \<^verbatim>\<open>AMG_STATE\<close> of \<^verbatim>\<open>annotator_3d.py\<close>, the pickle
  files \<^verbatim>\<open>state-{i}.pkl\<close> on disk (keyed by their folder and \<open>i\<close>), and the trace.
\<close>

record world =
  viewer :: viewer
  state :: annotator_state
  AMG :: amg
  AMG_STATE :: amg_cache
  pickles :: "((string \<times> int) \<times> amg_blob) list"
  trace :: "event list"

text \<open>
  A call returns normally (\<open>Inr\<close>) or raises (\<open>Inl\<close>); an exception leaves the world as
  it was mutated up to the \<^verbatim>\<open>raise\<close>. \<open>world_of\<close> and \<open>returned_world\<close> give the world
  after a call, however it ended.
\<close>

type_synonym 'a result = "(error \<times> world) + 'a"

definition world_of :: "world result \<Rightarrow> world" where
  "world_of r = (case r of Inl (e, w) \<Rightarrow> w | Inr w \<Rightarrow> w)"

definition returned_world :: "('a \<times> world) result \<Rightarrow> world" where
  "returned_world r = (case r of Inl (e, w) \<Rightarrow> w | Inr (x, w) \<Rightarrow> w)"

definition layer_data :: "viewer \<Rightarrow> layer \<Rightarrow> array" where
  "layer_data v l = (case l of Current_object \<Rightarrow> current_object v
                      | Auto_segmentation \<Rightarrow> auto_segmentation v)"

definition set_layer_data :: "layer \<Rightarrow> array \<Rightarrow> viewer \<Rightarrow> viewer" where
  "set_layer_data l a v = (case l of Current_object \<Rightarrow> v\<lparr>current_object := a\<rparr>
                            | Auto_segmentation \<Rightarrow> v\<lparr>auto_segmentation := a\<rparr>)"

section \<open>Tracking state and lineage (\<^verbatim>\<open>_widgets.py\<close>)\<close>

text \<open>\<^verbatim>\<open>_reset_tracking_state\<close>\<close>

definition reset_tracking_state :: "world \<Rightarrow> world" where
  "reset_tracking_state w =
    w\<lparr>state := (state w)\<lparr>current_track_id := 1, lineage := [(1, [])],
                          track_menu_value := 1, track_menu_choices := [1]\<rparr>,
      viewer := (viewer w)\<lparr>point_prompts_track_ids := [1], prompts_track_ids := [1]\<rparr>\<rparr>"

text \<open>
  \<^verbatim>\<open>_update_lineage\<close>. The two assertions on the mother track come first; the
  daughters are the two numbers after the current track id.
\<close>

definition update_lineage :: "world \<Rightarrow> world result" where
  "update_lineage w =
    (let mother = current_track_id (state w) in
     case map_of (lineage (state w)) mother of
       None \<Rightarrow> Inl (AssertionError, w)
     | Some children \<Rightarrow>
         if length children = 0 then
           (let daughter1 = current_track_id (state w) + 1;
                daughter2 = current_track_id (state w) + 2;
                lin = AList.update daughter2 []
                        (AList.update daughter1 []
                          (AList.update mother [daughter1, daughter2] (lineage (state w))));
                track_ids = map fst lin
            in Inr (w\<lparr>state := (state w)\<lparr>lineage := lin, track_menu_choices := track_ids\<rparr>,
                      viewer := (viewer w)\<lparr>point_prompts_track_ids := track_ids,
                                            prompts_track_ids := track_ids\<rparr>\<rparr>))
         else Inl (AssertionError, w))"

text \<open>
  \<^verbatim>\<open>track_object\<close>, after the two tracking steps: \<open>seg\<close> and \<open>has_division\<close> are what
  \<^verbatim>\<open>vutil.track_from_prompts\<close> returned. Lines 586 to 589 record the division; Python's
  \<^verbatim>\<open>and\<close> looks the current track up only when a division was reported.
\<close>

definition record_division :: "world \<Rightarrow> bool \<Rightarrow> world result" where
  "record_division w has_division =
    (if has_division then
       (case map_of (lineage (state w)) (current_track_id (state w)) of
          None \<Rightarrow> Inl (KeyError, w)
        | Some children \<Rightarrow> if length children = 0 then update_lineage w else Inr w)
     else Inr w)"

text \<open>
  Lines 591 to 595: the old mask of the track is cleared in the whole layer and the new
  mask is written with the current track id.
\<close>

definition paint_track :: "world \<Rightarrow> array \<Rightarrow> world result" where
  "paint_track w seg =
    (let track_id = current_track_id (state w);
         cleared = map (clear_label track_id) (current_object (viewer w));
         w1 = w\<lparr>viewer := (viewer w)\<lparr>current_object := cleared\<rparr>\<rparr>
     in if shape seg = shape cleared then
          (case to_label track_id of
             None \<Rightarrow> Inl (OverflowError, w1)
           | Some c \<Rightarrow>
               Inr (w1\<lparr>viewer := (viewer w1)\<lparr>current_object :=
                     map (\<lambda>(s, p). set_where (equal_1 s) c p) (zip seg cleared)\<rparr>\<rparr>))
        else Inl (IndexError, w1))"

definition track_object :: "world \<Rightarrow> array \<Rightarrow> bool \<Rightarrow> world result" where
  "track_object w seg has_division =
    (case record_division w has_division of
       Inl e \<Rightarrow> Inl e
     | Inr w1 \<Rightarrow> paint_track w1 seg)"

section \<open>Committing (\<^verbatim>\<open>_widgets.py\<close>)\<close>

text \<open>
  \<^verbatim>\<open>_commit_impl\<close>. \<^verbatim>\<open>seg\<close> is a view of the source layer, so the addition of the
  offset also changes the source layer. The masked assignment into the committed layer
  needs the two views to have one shape and raises an \<^verbatim>\<open>IndexError\<close> otherwise. The
  function returns the offset as a Python integer, the shifted view, the mask (\<open>msk\<close>,
  since \<open>mask\<close> is a constant of the word library) and the slice.
\<close>

definition commit_impl ::
  "world \<Rightarrow> layer \<Rightarrow> ((int \<times> array \<times> mask \<times> (nat \<times> nat) option) \<times> world) result" where
  "commit_impl w layer =
    (let bb = z_range (state w);
         data = layer_data (viewer w) layer;
         seg = sub (bounds bb (length data)) data;
         committed = committed_objects (viewer w);
         id_offset = uint (array_max committed);
         msk = not_equal_0 seg;
         seg = add_where msk (word_of_int id_offset) seg;
         w1 = w\<lparr>viewer := set_layer_data layer (splice (bounds bb (length data)) seg data)
                               (viewer w)\<rparr>;
         target = sub (bounds bb (length committed)) committed
     in if shape target = shape msk then
          Inr ((id_offset, seg, msk, bb),
               w1\<lparr>viewer := (viewer w1)\<lparr>committed_objects :=
                     splice (bounds bb (length committed)) (assign_where msk seg target)
                       committed\<rparr>\<rparr>)
        else Inl (IndexError, w1))"

text \<open>
  \<^verbatim>\<open>_commit_to_file\<close> writes the segmentation and the prompts to a zarr file; it can
  raise (line 179). For the commit widgets only its outcome matters: \<open>file_error\<close> is
  the exception it raises, if any, and is looked at only when a \<^verbatim>\<open>commit_path\<close> is
  given. \<^verbatim>\<open>vutil.clear_annotations\<close> is not part of the module; it is called with the
  viewer and is a parameter here.
\<close>

definition commit ::
  "(viewer \<Rightarrow> viewer) \<Rightarrow> error option \<Rightarrow> world \<Rightarrow> layer \<Rightarrow> string option \<Rightarrow> world result" where
  "commit clear_annotations file_error w layer commit_path =
    (case commit_impl w layer of
       Inl e \<Rightarrow> Inl e
     | Inr ((id_offset, seg, msk, bb), w1) \<Rightarrow>
         (case (if commit_path \<noteq> None then file_error else None) of
            Some e \<Rightarrow> Inl (e, w1)
          | None \<Rightarrow>
              if layer = Current_object then
                Inr (w1\<lparr>viewer := clear_annotations (viewer w1)\<rparr>)
              else
                Inr (w1\<lparr>viewer := (viewer w1)\<lparr>
                       auto_segmentation :=
                         map (map (\<lambda>v. 0)) (auto_segmentation (viewer w1)),
                       selection := Some ''committed_objects''\<rparr>\<rparr>)))"

text \<open>
  The dictionary comprehension of \<^verbatim>\<open>commit_track\<close>: the items of the lineage are
  visited in order and each shifted parent is assigned its shifted children.
\<close>

definition shift_lineage :: "int \<Rightarrow> lineage \<Rightarrow> lineage" where
  "shift_lineage id_offset lin =
    fold (\<lambda>(parent, children) d.
            AList.update (parent + id_offset) (map (\<lambda>child. child + id_offset) children) d)
      lin []"

text \<open>\<^verbatim>\<open>commit_track\<close>\<close>

definition commit_track ::
  "(viewer \<Rightarrow> viewer) \<Rightarrow> error option \<Rightarrow> world \<Rightarrow> layer \<Rightarrow> string option \<Rightarrow> world result" where
  "commit_track clear_annotations file_error w layer commit_path =
    (case commit_impl w layer of
       Inl e \<Rightarrow> Inl e
     | Inr ((id_offset, seg, msk, bb), w1) \<Rightarrow>
         (let updated_lineage = shift_lineage id_offset (lineage (state w1));
              w2 = w1\<lparr>state := (state w1)\<lparr>committed_lineages :=
                         committed_lineages (state w1) @ [updated_lineage]\<rparr>\<rparr>
          in case (if commit_path \<noteq> None then file_error else None) of
               Some e \<Rightarrow> Inl (e, w2)
             | None \<Rightarrow>
                 Inr (reset_tracking_state
                       (if layer = Current_object
                        then w2\<lparr>viewer := clear_annotations (viewer w2)\<rparr> else w2))))"

section \<open>Interactive segmentation widgets\<close>

text \<open>
  The helpers of \<^verbatim>\<open>vutil\<close> are not part of the two modules. A widget is given what they
  return: \<open>point_prompts\<close> is the result of \<^verbatim>\<open>vutil.point_layer_to_prompts\<close> for the
  target slice, \<^verbatim>\<open>None\<close> for the stop marker and else the pair of points and labels;
  \<open>seg\<close> is the result of \<^verbatim>\<open>vutil.prompt_segmentation\<close> for these prompts, \<^verbatim>\<open>None\<close>
  when the prompts are empty or invalid. The call of the segmenter and the printed
  message are recorded in the trace.
\<close>

definition call_segmenter :: "world \<Rightarrow> world" where
  "call_segmenter w = w\<lparr>trace := trace w @ [Prompt_segmentation]\<rparr>"

definition print_skipped :: "world \<Rightarrow> world" where
  "print_skipped w = w\<lparr>trace := trace w @ [Print_skipped]\<rparr>"

text \<open>\<^verbatim>\<open>segment\<close> (2D): the layer is replaced by the segmentation.\<close>

definition segment :: "world \<Rightarrow> array option \<Rightarrow> world result" where
  "segment w seg =
    (let w1 = call_segmenter w in
     case seg of
       None \<Rightarrow> Inr (print_skipped w1)
     | Some seg \<Rightarrow> Inr (w1\<lparr>viewer := (viewer w1)\<lparr>current_object := seg\<rparr>\<rparr>))"

text \<open>
  \<^verbatim>\<open>data[z] = seg\<close> on the layer \<^verbatim>\<open>current_object\<close>: the index follows Python's rule
  and the segmentation must have the shape of a slice.
\<close>

definition set_slice :: "world \<Rightarrow> int \<Rightarrow> plane \<Rightarrow> world result" where
  "set_slice w z seg =
    (let data = current_object (viewer w) in
     case py_index (length data) z of
       None \<Rightarrow> Inl (IndexError, w)
     | Some j \<Rightarrow>
         if length seg = length (data ! j)
         then Inr (w\<lparr>viewer := (viewer w)\<lparr>current_object := data[j := seg]\<rparr>\<rparr>)
         else Inl (ValueError, w))"

text \<open>\<^verbatim>\<open>segment_slice\<close>; \<open>z\<close> is \<^verbatim>\<open>int(position[0])\<close>.\<close>

definition segment_slice :: "world \<Rightarrow> int \<Rightarrow> 'p option \<Rightarrow> plane option \<Rightarrow> world result" where
  "segment_slice w z point_prompts seg =
    (case point_prompts of
       None \<Rightarrow> Inr w
     | Some points_labels \<Rightarrow>
         (let w1 = call_segmenter w in
          case seg of
            None \<Rightarrow> Inr (print_skipped w1)
          | Some seg \<Rightarrow> set_slice w1 z seg))"

text \<open>\<^verbatim>\<open>_segment_slice_wigdet\<close> of \<^verbatim>\<open>annotator_3d.py\<close> has the same steps.\<close>

definition segment_slice_wigdet ::
  "world \<Rightarrow> int \<Rightarrow> 'p option \<Rightarrow> plane option \<Rightarrow> world result" where
  "segment_slice_wigdet w z point_prompts seg =
    (case point_prompts of
       None \<Rightarrow> Inr w
     | Some points_labels \<Rightarrow>
         (let w1 = call_segmenter w in
          case seg of
            None \<Rightarrow> Inr (print_skipped w1)
          | Some seg \<Rightarrow> set_slice w1 z seg))"

text \<open>
  \<^verbatim>\<open>segment_frame\<close>, lines 548 to 554: the old mask of the current track is cleared in
  frame \<open>t\<close>, then the new mask is written with the current track id.
\<close>

definition paint_frame :: "world \<Rightarrow> int \<Rightarrow> plane \<Rightarrow> world result" where
  "paint_frame w t seg =
    (let data = current_object (viewer w);
         track_id = current_track_id (state w) in
     case py_index (length data) t of
       None \<Rightarrow> Inl (IndexError, w)
     | Some j \<Rightarrow>
         (let cleared = clear_label track_id (data ! j);
              w1 = w\<lparr>viewer := (viewer w)\<lparr>current_object := data[j := cleared]\<rparr>\<rparr>
          in if length seg = length cleared then
               (case to_label track_id of
                  None \<Rightarrow> Inl (OverflowError, w1)
                | Some c \<Rightarrow>
                    Inr (w1\<lparr>viewer := (viewer w1)\<lparr>current_object :=
                          data[j := set_where (equal_1 seg) c cleared]\<rparr>\<rparr>))
             else Inl (IndexError, w1)))"

definition segment_frame :: "world \<Rightarrow> int \<Rightarrow> 'p option \<Rightarrow> plane option \<Rightarrow> world result" where
  "segment_frame w t point_prompts seg =
    (case point_prompts of
       None \<Rightarrow> Inr w
     | Some points_labels \<Rightarrow>
         (let w1 = call_segmenter w in
          case seg of
            None \<Rightarrow> Inr (print_skipped w1)
          | Some seg \<Rightarrow> paint_frame w1 t seg))"

section \<open>Volume propagation of the automatic segmentation (\<^verbatim>\<open>annotator_3d.py\<close>)\<close>

text \<open>\<^verbatim>\<open>np.unique\<close>: the sorted list of the distinct labels.\<close>

definition unique :: "plane \<Rightarrow> label list" where
  "unique p = remdups (sort p)"

text \<open>
  Lines 88 and 89 of \<^verbatim>\<open>_segment_volume_for_auto_segmentation\<close>. The first statement
  assigns 0 to the slices before the start slice. The second, \<^verbatim>\<open>seg[(start_slice+1):]\<close>,
  is an expression without an assignment and changes nothing.
\<close>

definition clear_outside_start_slice :: "nat \<Rightarrow> array \<Rightarrow> array" where
  "clear_outside_start_slice start seg =
    map (map (\<lambda>v. 0)) (take start seg) @ drop start seg"

text \<open>
  The loop over the objects of the start slice. \<^verbatim>\<open>segment_mask_in_volume\<close> belongs to
  another module: given the mask of the object and the start slice it returns an array,
  whose entries equal to 1 are then labelled with the object id in \<^verbatim>\<open>seg\<close>.
\<close>

fun propagate_objects ::
  "(mask \<Rightarrow> int \<Rightarrow> array) \<Rightarrow> int \<Rightarrow> label list \<Rightarrow> array \<Rightarrow> (error \<times> array) + array" where
  "propagate_objects segment_mask_in_volume start_slice [] seg = Inr seg"
| "propagate_objects segment_mask_in_volume start_slice (object_id # object_ids) seg =
    (let object_seg =
           segment_mask_in_volume (map (map (\<lambda>v. v = object_id)) seg) start_slice
     in if shape object_seg = shape seg then
          propagate_objects segment_mask_in_volume start_slice object_ids
            (map (\<lambda>(s, p). set_where (equal_1 s) object_id p) (zip object_seg seg))
        else Inl (IndexError, seg))"

text \<open>
  \<^verbatim>\<open>_segment_volume_for_auto_segmentation\<close>. \<^verbatim>\<open>seg\<close> is the data of the layer itself,
  so every assignment changes the layer. The ids of the start slice are read before the
  slices are cleared; \<^verbatim>\<open>object_ids[0]\<close> is only evaluated with \<^verbatim>\<open>with_background\<close>.
\<close>

definition object_ids_of :: "bool \<Rightarrow> plane \<Rightarrow> error + label list" where
  "object_ids_of with_background start_plane =
    (let object_ids = unique start_plane in
     if with_background then
       (case object_ids of
          [] \<Rightarrow> Inl IndexError
        | first # others \<Rightarrow> if first = 0 then Inr others else Inr object_ids)
     else Inr object_ids)"

definition segment_volume_for_auto_segmentation ::
  "(mask \<Rightarrow> int \<Rightarrow> array) \<Rightarrow> world \<Rightarrow> bool \<Rightarrow> int \<Rightarrow> (array \<times> world) result" where
  "segment_volume_for_auto_segmentation segment_mask_in_volume w with_background start_slice =
    (let seg = auto_segmentation (viewer w) in
     case py_index (length seg) start_slice of
       None \<Rightarrow> Inl (IndexError, w)
     | Some start \<Rightarrow>
         (case object_ids_of with_background (seg ! start) of
            Inl e \<Rightarrow> Inl (e, w)
          | Inr object_ids \<Rightarrow>
              (case propagate_objects segment_mask_in_volume start_slice object_ids
                      (clear_outside_start_slice start seg) of
                 Inl (e, seg) \<Rightarrow> Inl (e, w\<lparr>viewer := (viewer w)\<lparr>auto_segmentation := seg\<rparr>\<rparr>)
               | Inr seg \<Rightarrow>
                   Inr (seg, w\<lparr>viewer := (viewer w)\<lparr>auto_segmentation := seg\<rparr>\<rparr>))))"

section \<open>Automatic segmentation and the AMG state cache\<close>

text \<open>
  The mask generator is driven through two functions that are parameters here:
  \<open>initialize i\<close> is the state the generator holds after \<^verbatim>\<open>initialize\<close> for slice
  \<open>i\<close> (for the 2D image when \<open>i\<close> is \<^verbatim>\<open>None\<close>), and \<open>generate b\<close> is what
  \<^verbatim>\<open>generate\<close> followed by \<^verbatim>\<open>mask_data_to_segmentation\<close> yields from the state \<open>b\<close>:
  \<^verbatim>\<open>None\<close> when no mask was generated and else the segmentation as rows of labels.
  Every call of \<^verbatim>\<open>initialize\<close>, \<^verbatim>\<open>set_state\<close> and \<^verbatim>\<open>generate\<close> is recorded in the trace.
\<close>

definition zeros_hw :: "nat \<times> nat \<Rightarrow> array" where
  "zeros_hw hw = replicate (fst hw) (replicate (snd hw) 0)"

text \<open>
  Lines 610 to 651 of \<^verbatim>\<open>_instance_segmentation_impl\<close>. After a miss the new state is
  stored under \<open>i\<close> and pickled when a cache folder is set; then line 636 reads
  \<^verbatim>\<open>state.amge_state\<close>. Line 641 subscripts the annotator state itself, which is taken
  to raise a \<^verbatim>\<open>TypeError\<close>.
\<close>

definition prepare_amg :: "(int option \<Rightarrow> amg_blob) \<Rightarrow> world \<Rightarrow> int option \<Rightarrow> world result" where
  "prepare_amg initialize w0 i =
    (let w = (if amg (state w0) = No_amg then w0\<lparr>state := (state w0)\<lparr>amg := Amg None\<rparr>\<rparr>
              else w0)
     in case amg_state (state w) of
          Some cache \<Rightarrow>
            (case i of
               None \<Rightarrow> Inl (AssertionError, w)
             | Some i \<Rightarrow>
                 (case map_of (entries cache) i of
                    Some amg_state_i \<Rightarrow>
                      Inr (w\<lparr>state := (state w)\<lparr>amg := Amg (Some amg_state_i)\<rparr>,
                             trace := trace w @ [Amg_set_state amg_state_i]\<rparr>)
                  | None \<Rightarrow>
                      (let amg_state_i = initialize (Some i);
                           cache1 = cache\<lparr>entries := AList.update i amg_state_i (entries cache)\<rparr>;
                           w1 = w\<lparr>state := (state w)\<lparr>amg := Amg (Some amg_state_i),
                                                     amg_state := Some cache1\<rparr>,
                                  trace := trace w @ [Amg_initialize (Some i)]\<rparr>;
                           w2 = (case cache_folder cache1 of
                                   None \<Rightarrow> w1
                                 | Some folder \<Rightarrow>
                                     w1\<lparr>pickles :=
                                          AList.update (folder, i) amg_state_i (pickles w1)\<rparr>)
                       in case amge_state (state w2) of
                            No_attribute \<Rightarrow> Inl (AttributeError, w2)
                          | Attribute None \<Rightarrow> Inr w2
                          | Attribute (Some cache_path) \<Rightarrow> Inl (TypeError, w2))))
        | None \<Rightarrow>
            (if amg (state w) = Amg None then
               (case i of
                  Some i \<Rightarrow> Inl (AssertionError, w)
                | None \<Rightarrow>
                    Inr (w\<lparr>state := (state w)\<lparr>amg := Amg (Some (initialize None))\<rparr>,
                           trace := trace w @ [Amg_initialize None]\<rparr>))
             else Inr w))"

text \<open>
  \<^verbatim>\<open>data[i] = seg\<close> on the layer \<^verbatim>\<open>auto_segmentation\<close>: the rows of the segmentation
  become the entry \<open>i\<close> of the layer.
\<close>

definition set_auto_slice :: "world \<Rightarrow> int \<Rightarrow> array \<Rightarrow> world result" where
  "set_auto_slice w i seg =
    (let data = auto_segmentation (viewer w) in
     case py_index (length data) i of
       None \<Rightarrow> Inl (IndexError, w)
     | Some j \<Rightarrow>
         if length (concat seg) = length (data ! j)
         then Inr (w\<lparr>viewer := (viewer w)\<lparr>auto_segmentation := data[j := concat seg]\<rparr>\<rparr>)
         else Inl (ValueError, w))"

text \<open>\<^verbatim>\<open>_instance_segmentation_impl\<close>\<close>

definition instance_segmentation_impl ::
  "(int option \<Rightarrow> amg_blob) \<Rightarrow> (amg_blob \<Rightarrow> array option) \<Rightarrow> world \<Rightarrow> int option \<Rightarrow> bool
     \<Rightarrow> (array \<times> world) result" where
  "instance_segmentation_impl initialize generate w0 i skip_update =
    (case prepare_amg initialize w0 i of
       Inl e \<Rightarrow> Inl e
     | Inr w \<Rightarrow>
         (case amg (state w) of
            Amg (Some b) \<Rightarrow>
              (let w1 = w\<lparr>trace := trace w @ [Amg_generate]\<rparr>;
                   seg = (case generate b of
                            None \<Rightarrow> zeros_hw (image_hw (state w1))
                          | Some seg \<Rightarrow> seg)
               in if skip_update then Inr (seg, w1)
                  else
                    (case i of
                       None \<Rightarrow>
                         Inr (seg, w1\<lparr>viewer := (viewer w1)\<lparr>auto_segmentation := seg\<rparr>\<rparr>)
                     | Some i \<Rightarrow>
                         (case set_auto_slice w1 i seg of
                            Inl e \<Rightarrow> Inl e
                          | Inr w2 \<Rightarrow> Inr (seg, w2))))
          | _ \<Rightarrow> Inl (RuntimeError, w)))"

text \<open>
  The body of the loop of \<^verbatim>\<open>_segment_volume\<close>, lines 686 and 687: the nonzero labels
  of the slice are shifted by the offset, and the new offset is the maximum of the slice
  before the shift plus the old offset, in 32-bit arithmetic.
\<close>

definition stack_slice :: "label \<Rightarrow> array \<Rightarrow> array \<times> label" where
  "stack_slice offset seg =
    (map (map (\<lambda>v. if v \<noteq> 0 then v + offset else v)) seg, array_max seg + offset)"

text \<open>
  The loop of \<^verbatim>\<open>_segment_volume\<close> over the slice indices. \<^verbatim>\<open>seg.max()\<close> raises on an
  array without elements; a slice whose maximum is 0 is skipped.
\<close>

fun segment_volume_loop ::
  "(int option \<Rightarrow> amg_blob) \<Rightarrow> (amg_blob \<Rightarrow> array option) \<Rightarrow> nat list \<Rightarrow> label \<Rightarrow> array
     \<Rightarrow> world \<Rightarrow> ((array \<times> label) \<times> world) result" where
  "segment_volume_loop initialize generate [] offset segmentation w =
     Inr ((segmentation, offset), w)"
| "segment_volume_loop initialize generate (i # rest) offset segmentation w =
    (case instance_segmentation_impl initialize generate w (Some (int i)) True of
       Inl e \<Rightarrow> Inl e
     | Inr (seg, w1) \<Rightarrow>
         if concat seg = [] then Inl (ValueError, w1)
         else if array_max seg = 0 then
           segment_volume_loop initialize generate rest offset segmentation w1
         else
           (case stack_slice offset seg of
              (seg, offset) \<Rightarrow>
                if length (concat seg) = length (segmentation ! i) then
                  segment_volume_loop initialize generate rest offset
                    (segmentation[i := concat seg]) w1
                else Inl (ValueError, w1)))"

text \<open>
  \<^verbatim>\<open>_segment_volume\<close>; \<^verbatim>\<open>merge_instance_segmentation_3d\<close> belongs to another module and
  is the parameter \<open>merge\<close>.
\<close>

definition segment_volume ::
  "(array \<Rightarrow> array) \<Rightarrow> (int option \<Rightarrow> amg_blob) \<Rightarrow> (amg_blob \<Rightarrow> array option) \<Rightarrow> world
     \<Rightarrow> world result" where
  "segment_volume merge initialize generate w =
    (let data = auto_segmentation (viewer w) in
     case segment_volume_loop initialize generate [0..<length data] 0
            (map (map (\<lambda>v. 0)) data) w of
       Inl e \<Rightarrow> Inl e
     | Inr ((segmentation, offset), w1) \<Rightarrow>
         Inr (w1\<lparr>viewer := (viewer w1)\<lparr>auto_segmentation := merge segmentation\<rparr>\<rparr>))"

text \<open>
  \<^verbatim>\<open>_autosegment_widget\<close> of \<^verbatim>\<open>annotator_3d.py\<close>, with the module globals \<^verbatim>\<open>AMG\<close>
  and \<^verbatim>\<open>AMG_STATE\<close>. Here \<open>generate\<close> always yields a segmentation. After a miss the new
  state is pickled when a cache folder is set; no statement stores it in \<^verbatim>\<open>AMG_STATE\<close>.
\<close>

definition autosegment_widget ::
  "(int option \<Rightarrow> amg_blob) \<Rightarrow> (amg_blob \<Rightarrow> array) \<Rightarrow> world \<Rightarrow> int \<Rightarrow> world result" where
  "autosegment_widget initialize generate w0 i =
    (let w = (if AMG w0 = No_amg then w0\<lparr>AMG := Amg None\<rparr> else w0) in
     case (case map_of (entries (AMG_STATE w)) i of
             Some st \<Rightarrow>
               Inr (st, w\<lparr>AMG := Amg (Some st), trace := trace w @ [Amg_set_state st]\<rparr>)
           | None \<Rightarrow>
               (case py_index (raw_slices (viewer w)) i of
                  None \<Rightarrow> Inl (IndexError, w)
                | Some j \<Rightarrow>
                    (let st = initialize (Some i);
                         w1 = w\<lparr>AMG := Amg (Some st),
                                trace := trace w @ [Amg_initialize (Some i)]\<rparr>
                     in case cache_folder (AMG_STATE w1) of
                          None \<Rightarrow> Inr (st, w1)
                        | Some folder \<Rightarrow>
                            Inr (st, w1\<lparr>pickles :=
                                          AList.update (folder, i) st (pickles w1)\<rparr>)))) of
       Inl e \<Rightarrow> Inl e
     | Inr (st, w2) \<Rightarrow>
         set_auto_slice (w2\<lparr>trace := trace w2 @ [Amg_generate]\<rparr>) i (generate st))"

text \<open>
  \<^verbatim>\<open>_load_amg_state\<close>: \<open>embedding_path\<close> is \<^verbatim>\<open>None\<close> also when the path does not exist.
  The pickle files of the cache folder are loaded under the number in their name.
\<close>

definition load_amg_state ::
  "((string \<times> int) \<times> amg_blob) list \<Rightarrow> string option \<Rightarrow> amg_cache" where
  "load_amg_state files embedding_path =
    (case embedding_path of
       None \<Rightarrow> \<lparr>cache_folder = None, entries = []\<rparr>
     | Some path \<Rightarrow>
         (let folder = path @ ''/amg_state'' in
          \<lparr>cache_folder = Some folder,
           entries = fold (\<lambda>((f, i), st) d. if f = folder then AList.update i st d else d)
                       files []\<rparr>))"

section \<open>Concrete sessions\<close>

text \<open>
  The state right after \<^verbatim>\<open>_reset_tracking_state\<close>, over a time series of one frame
  with two pixels, and a tracking session in which track 1 has divided.
\<close>

definition tracking_start :: world where
  "tracking_start =
    \<lparr>viewer = \<lparr>committed_objects = [[0, 0]], current_object = [[0, 0]],
               auto_segmentation = [[0, 0]], point_prompts_track_ids = [1],
               prompts_track_ids = [1], selection = None, raw_slices = 1\<rparr>,
     state = \<lparr>z_range = None, current_track_id = 1, lineage = [(1, [])],
              committed_lineages = [], track_menu_value = 1, track_menu_choices = [1],
              image_hw = (1, 2), amg = No_amg, amg_state = None,
              amge_state = No_attribute\<rparr>,
     AMG = No_amg, AMG_STATE = \<lparr>cache_folder = None, entries = []\<rparr>, pickles = [],
     trace = []\<rparr>"

definition tracking_divided :: world where
  "tracking_divided =
    \<lparr>viewer = \<lparr>committed_objects = [[5, 0], [0, 7]], current_object = [[0, 1], [2, 0]],
               auto_segmentation = [[0, 0], [0, 0]], point_prompts_track_ids = [1, 2, 3],
               prompts_track_ids = [1, 2, 3], selection = None, raw_slices = 2\<rparr>,
     state = \<lparr>z_range = None, current_track_id = 1,
              lineage = [(1, [2, 3]), (2, []), (3, [])],
              committed_lineages = [], track_menu_value = 1,
              track_menu_choices = [1, 2, 3], image_hw = (1, 2), amg = No_amg,
              amg_state = None, amge_state = No_attribute\<rparr>,
     AMG = No_amg, AMG_STATE = \<lparr>cache_folder = None, entries = []\<rparr>, pickles = [],
     trace = []\<rparr>"

text \<open>
  A session whose committed layer holds the largest 32-bit label, and two objects in the
  layer \<^verbatim>\<open>current_object\<close>.
\<close>

definition wrapped_session :: world where
  "wrapped_session =
    tracking_start\<lparr>viewer := (viewer tracking_start)\<lparr>
      committed_objects := [[4294967295, 1, 0]], current_object := [[1, 0, 2]]\<rparr>\<rparr>"

text \<open>
  A volume of three slices with two pixels each in the layer \<^verbatim>\<open>auto_segmentation\<close>.
\<close>

definition volume_session :: world where
  "volume_session =
    tracking_start\<lparr>viewer := (viewer tracking_start)\<lparr>
      committed_objects := [[0, 0], [0, 0], [0, 0]],
      current_object := [[0, 0], [0, 0], [0, 0]],
      auto_segmentation := [[1, 2], [3, 0], [4, 4]],
      raw_slices := 3\<rparr>\<rparr>"

text \<open>
  The same volume in the 3D annotator of \<^verbatim>\<open>_widgets.py\<close>, with an empty AMG state cache
  without cache folder and an annotator state whose \<^verbatim>\<open>amge_state\<close> has no cache path.
\<close>

definition cached_session :: world where
  "cached_session =
    volume_session\<lparr>state := (state volume_session)\<lparr>
      amg_state := Some \<lparr>cache_folder = None, entries = []\<rparr>,
      amge_state := Attribute None\<rparr>\<rparr>"

text \<open>
  The volume in the 3D annotator of \<^verbatim>\<open>annotator_3d.py\<close> started with the embedding
  path \<^verbatim>\<open>emb\<close>: the cache folder is set and holds no pickle file yet.
\<close>

definition folder_session :: world where
  "folder_session =
    volume_session\<lparr>AMG_STATE := \<lparr>cache_folder = Some ''emb/amg_state'', entries = []\<rparr>\<rparr>"

section \<open>Tiling inputs (\<^verbatim>\<open>_widgets.py\<close>, \<^verbatim>\<open>_process_tiling_inputs\<close>)\<close>

text \<open>
  The four arguments are the values of integer spin boxes. The function builds the tuples
  \<^verbatim>\<open>tile_shape\<close> and \<^verbatim>\<open>halo\<close> and replaces each by a normalised tuple or by
  \<^verbatim>\<open>None\<close>. The three branches on the tile shape and the two branches on the halo are
  kept in the order of the source; a tuple that no branch touches is returned as it is.
  (Isabelle identifiers cannot start with an underscore, so the leading underscore of the
  Python name is dropped.)
\<close>

definition process_tiling_inputs ::
  "int \<Rightarrow> int \<Rightarrow> int \<Rightarrow> int \<Rightarrow> (int \<times> int) option \<times> (int \<times> int) option" where
  "process_tiling_inputs tile_shape_x tile_shape_y halo_x halo_y =
    (let tile_shape =
       (if tile_shape_x = 0 \<and> tile_shape_y = 0 then None
        else if tile_shape_x = 0 \<or> tile_shape_y = 0 then
          (let max_val = max tile_shape_x tile_shape_y;
               max_val = (if max_val < 256 then 256 else max_val)
           in Some (max_val, max_val))
        else if tile_shape_x \<noteq> 0 \<and> tile_shape_y \<noteq> 0 then
          (let ts = (if tile_shape_x < 256 then (256, tile_shape_y)
                     else (tile_shape_x, tile_shape_y));
               ts = (if snd ts < 256 then (fst ts, 256) else ts)
           in Some ts)
        else Some (tile_shape_x, tile_shape_y));
         halo =
       (if halo_x = 0 \<and> halo_y = 0 then
          (if tile_shape \<noteq> None then Some (0, 0) else None)
        else if halo_x \<noteq> 0 \<or> halo_y \<noteq> 0 then
          (let max_val = max halo_x halo_y
           in if tile_shape = None then None else Some (max_val, max_val))
        else Some (halo_x, halo_y))
     in (tile_shape, halo))"

section \<open>Properties of the tiling inputs\<close>

text \<open>
  Claim C5. For all inputs of \<^verbatim>\<open>_process_tiling_inputs\<close>: when both tile-shape
  components are 0 the tile shape is \<^verbatim>\<open>None\<close>; when at least one is nonzero the
  result is a pair whose two components are at least 256; the halo is \<^verbatim>\<open>None\<close>
  exactly when the tile shape is; and when tiling is requested and exactly one halo axis
  is nonzero, both axes of the halo are the maximum of the two halo inputs.
\<close>

theorem process_tiling_inputs_spec:
  "(tx = 0 \<and> ty = 0 \<longrightarrow> fst (process_tiling_inputs tx ty hx hy) = None) \<and>
   (tx \<noteq> 0 \<or> ty \<noteq> 0 \<longrightarrow>
      (\<exists>a b. fst (process_tiling_inputs tx ty hx hy) = Some (a, b) \<and> 256 \<le> a \<and> 256 \<le> b)) \<and>
   (snd (process_tiling_inputs tx ty hx hy) = None
      \<longleftrightarrow> fst (process_tiling_inputs tx ty hx hy) = None) \<and>
   ((tx \<noteq> 0 \<or> ty \<noteq> 0) \<and> ((hx = 0) \<noteq> (hy = 0)) \<longrightarrow>
      snd (process_tiling_inputs tx ty hx hy) = Some (max hx hy, max hx hy))"
  by (auto simp: process_tiling_inputs_def Let_def)

theorem process_tiling_inputs_spec_witness:
  "fst (process_tiling_inputs 0 0 7 0) = None \<and>
   snd (process_tiling_inputs 0 0 7 0) = None \<and>
   fst (process_tiling_inputs 100 0 0 32) = Some (256, 256) \<and>
   snd (process_tiling_inputs 100 0 0 32) = Some (32, 32) \<and>
   (\<exists>a b. fst (process_tiling_inputs 512 100 0 32) = Some (a, b) \<and> 256 \<le> a \<and> 256 \<le> b)"
  using process_tiling_inputs_spec [of 0 0 7 0]
        process_tiling_inputs_spec [of 100 0 0 32]
        process_tiling_inputs_spec [of 512 100 0 32]
  by (simp add: process_tiling_inputs_def Let_def)

section \<open>Lineage: helper lemmas\<close>

lemma world_of_simps: "world_of (Inl (e, w)) = w" "world_of (Inr w) = w"
  by (simp_all add: world_of_def)

lemma record_division_no_division: "record_division w False = Inr w"
  by (simp add: record_division_def)

lemma record_division_unknown:
  "map_of (lineage (state w)) (current_track_id (state w)) = None \<Longrightarrow>
   record_division w True = Inl (KeyError, w)"
  by (simp add: record_division_def)

lemma record_division_forked:
  "map_of (lineage (state w)) (current_track_id (state w)) = Some cs \<Longrightarrow> cs \<noteq> [] \<Longrightarrow>
   record_division w True = Inr w"
  by (simp add: record_division_def)

lemma record_division_first:
  "map_of (lineage (state w)) (current_track_id (state w)) = Some [] \<Longrightarrow>
   lineage (state (world_of (record_division w True))) =
     AList.update (current_track_id (state w) + 2) []
       (AList.update (current_track_id (state w) + 1) []
         (AList.update (current_track_id (state w))
            [current_track_id (state w) + 1, current_track_id (state w) + 2]
            (lineage (state w))))"
  by (simp add: record_division_def update_lineage_def Let_def world_of_simps)

lemma record_division_track_id:
  "current_track_id (state (world_of (record_division w d))) = current_track_id (state w)"
  by (simp add: record_division_def update_lineage_def Let_def world_of_def split: option.split)

lemma record_division_committed:
  "committed_lineages (state (world_of (record_division w d))) = committed_lineages (state w)"
  by (simp add: record_division_def update_lineage_def Let_def world_of_def split: option.split)

lemma paint_track_state: "state (world_of (paint_track w seg)) = state w"
  by (simp add: paint_track_def Let_def world_of_def split: option.split)

lemma track_object_state:
  "state (world_of (track_object w seg d)) = state (world_of (record_division w d))"
  by (cases "record_division w d") (auto simp: track_object_def world_of_simps paint_track_state)

text \<open>The children of the current track after a division event, whatever they were before.\<close>

lemma record_division_children:
  "map_of (lineage (state (world_of (record_division w True)))) (current_track_id (state w)) =
    (case map_of (lineage (state w)) (current_track_id (state w)) of
       None \<Rightarrow> None
     | Some cs \<Rightarrow>
         if cs = [] then Some [current_track_id (state w) + 1, current_track_id (state w) + 2]
         else Some cs)"
proof (cases "map_of (lineage (state w)) (current_track_id (state w))")
  case None
  then show ?thesis by (simp add: record_division_unknown world_of_simps)
next
  case (Some cs)
  show ?thesis
  proof (cases "cs = []")
    case True
    with Some show ?thesis by (simp add: record_division_first update_conv')
  next
    case False
    with Some show ?thesis by (simp add: record_division_forked world_of_simps)
  qed
qed

lemma record_division_twice:
  "lineage (state (world_of (record_division (world_of (record_division w True)) True))) =
   lineage (state (world_of (record_division w True)))"
proof -
  let ?w1 = "world_of (record_division w True)"
  have cur: "current_track_id (state ?w1) = current_track_id (state w)"
    by (rule record_division_track_id)
  show ?thesis
  proof (cases "map_of (lineage (state ?w1)) (current_track_id (state ?w1))")
    case None
    then show ?thesis by (simp add: record_division_unknown world_of_simps)
  next
    case (Some cs)
    with record_division_children [of w] cur have "cs \<noteq> []"
      by (auto split: option.splits if_splits)
    with Some show ?thesis by (simp add: record_division_forked world_of_simps)
  qed
qed

section \<open>Commit: helper lemmas\<close>

lemma commit_impl_Inr:
  "commit_impl w layer = Inr ((off, seg, m, bb), w1) \<Longrightarrow>
     state w1 = state w \<and> off = uint (array_max (committed_objects (viewer w)))"
  by (simp add: commit_impl_def Let_def split: if_splits) auto

lemma commit_impl_Inl:
  "commit_impl w layer = Inl (e, w1) \<Longrightarrow> state w1 = state w \<and> e = IndexError"
  by (simp add: commit_impl_def Let_def split: if_splits) auto

lemma update_fresh: "k \<notin> fst ` set al \<Longrightarrow> AList.update k v al = al @ [(k, v)]"
  by (induction al) auto

lemma shift_fold:
  "distinct (map fst xs) \<Longrightarrow> \<forall>k \<in> fst ` set xs. k + (off::int) \<notin> fst ` set acc \<Longrightarrow>
   fold (\<lambda>(parent, children) d.
            AList.update (parent + off) (map (\<lambda>child. child + off) children) d) xs acc
   = acc @ map (\<lambda>(parent, children). (parent + off, map (\<lambda>child. child + off) children)) xs"
proof (induction xs arbitrary: acc)
  case Nil
  then show ?case by simp
next
  case (Cons x xs)
  obtain p cs where x: "x = (p, cs)" by (cases x)
  from Cons.prems have fresh: "p + off \<notin> fst ` set acc" by (simp add: x)
  have "\<forall>k \<in> fst ` set xs. k + off \<notin> fst ` set (acc @ [(p + off, map (\<lambda>child. child + off) cs)])"
  proof
    fix k assume k: "k \<in> fst ` set xs"
    from Cons.prems(1) k have "k \<noteq> p" by (auto simp: x)
    moreover from Cons.prems(2) k have "k + off \<notin> fst ` set acc" by auto
    ultimately show "k + off \<notin> fst ` set (acc @ [(p + off, map (\<lambda>child. child + off) cs)])"
      by simp
  qed
  with Cons.IH [of "acc @ [(p + off, map (\<lambda>child. child + off) cs)]"] Cons.prems
  show ?case by (simp add: x update_fresh [OF fresh])
qed

lemma shift_lineage_map:
  "distinct (map fst lin) \<Longrightarrow>
   shift_lineage off lin =
     map (\<lambda>(parent, children). (parent + off, map (\<lambda>child. child + off) children)) lin"
  using shift_fold [of lin off "[]"] by (simp add: shift_lineage_def)

lemma reset_tracking_state_simps:
  "committed_lineages (state (reset_tracking_state w)) = committed_lineages (state w)"
  "lineage (state (reset_tracking_state w)) = [(1, [])]"
  "current_track_id (state (reset_tracking_state w)) = 1"
  by (simp_all add: reset_tracking_state_def)

lemma commit_track_Inr:
  assumes "commit_track ca fe w layer path = Inr w'"
  shows "committed_lineages (state w') =
           committed_lineages (state w) @
             [shift_lineage (uint (array_max (committed_objects (viewer w)))) (lineage (state w))]
         \<and> lineage (state w') = [(1, [])]"
proof (cases "commit_impl w layer")
  case (Inl a)
  with assms show ?thesis by (simp add: commit_track_def)
next
  case (Inr b)
  obtain off seg m bb w1 where b: "b = ((off, seg, m, bb), w1)" by (cases b) auto
  from Inr b commit_impl_Inr
  have s: "state w1 = state w" "off = uint (array_max (committed_objects (viewer w)))"
    by blast+
  from assms Inr b show ?thesis
    by (auto simp: commit_track_def Let_def s reset_tracking_state_simps
        split: option.splits if_splits)
qed

lemma commit_track_Inl:
  assumes "commit_track ca fe w layer path = Inl (e, w')"
  shows "committed_lineages (state w') = committed_lineages (state w) \<or>
         committed_lineages (state w') =
           committed_lineages (state w) @
             [shift_lineage (uint (array_max (committed_objects (viewer w)))) (lineage (state w))]"
proof (cases "commit_impl w layer")
  case (Inl a)
  obtain e1 w1 where a: "a = (e1, w1)" by (cases a)
  from Inl a commit_impl_Inl have "state w1 = state w" by blast
  with assms Inl a show ?thesis by (simp add: commit_track_def)
next
  case (Inr b)
  obtain off seg m bb w1 where b: "b = ((off, seg, m, bb), w1)" by (cases b) auto
  from Inr b commit_impl_Inr
  have s: "state w1 = state w" "off = uint (array_max (committed_objects (viewer w)))"
    by blast+
  from assms Inr b show ?thesis
    by (auto simp: commit_track_def Let_def s split: option.splits if_splits)
qed

section \<open>Properties of the lineage\<close>

text \<open>
  Claim C2, evaluated on a session the widgets reach. The claim says that the two children
  of a division are the next two unused track ids. The code takes the two numbers after
  the current track id. Track 1 divides into 2 and 3; the user selects track 3, which
  divides into 4 and 5; the user selects track 2, whose division is given the ids 3 and 4,
  both in use: track 3 becomes a child of track 1 and of track 2, and the children that
  track 3 had are erased.
\<close>

theorem track_object_daughters_in_use:
  "(let w1 = world_of (track_object tracking_start [[1, 0]] True);
        w2 = world_of (track_object (w1\<lparr>state := (state w1)\<lparr>current_track_id := 3\<rparr>\<rparr>)
                         [[0, 1]] True);
        w3 = world_of (track_object (w2\<lparr>state := (state w2)\<lparr>current_track_id := 2\<rparr>\<rparr>)
                         [[1, 1]] True)
    in lineage (state w1) = [(1, [2, 3]), (2, []), (3, [])] \<and>
       lineage (state w2) = [(1, [2, 3]), (2, []), (3, [4, 5]), (4, []), (5, [])] \<and>
       lineage (state w3) = [(1, [2, 3]), (2, [3, 4]), (3, []), (4, []), (5, [])])"
  by (simp add: tracking_start_def track_object_def record_division_def update_lineage_def
      paint_track_def Let_def world_of_def clear_label_def to_label_def shape_def
      equal_1_def set_where_def)

text \<open>
  Claim C3. A division event for a track that already has children returns normally and
  leaves the world as it is, so the lineage after \<^verbatim>\<open>track_object\<close> is the one before.
  Two division events in a row for one track, with no reset and no change of the current
  track between them, end in the same lineage and the same children of that track; when
  the track had no children before, these are the two ids after it, both times.
\<close>

theorem record_division_idempotent:
  "(map_of (lineage (state w)) (current_track_id (state w)) = Some cs \<and> cs \<noteq> [] \<longrightarrow>
      record_division w True = Inr w \<and>
      lineage (state (world_of (track_object w seg True))) = lineage (state w)) \<and>
   (let w1 = world_of (track_object w seg True);
        w2 = world_of (track_object w1 seg' True)
    in lineage (state w2) = lineage (state w1) \<and>
       current_track_id (state w2) = current_track_id (state w) \<and>
       map_of (lineage (state w2)) (current_track_id (state w)) =
         map_of (lineage (state w1)) (current_track_id (state w)) \<and>
       (map_of (lineage (state w)) (current_track_id (state w)) = Some [] \<longrightarrow>
          map_of (lineage (state w1)) (current_track_id (state w)) =
            Some [current_track_id (state w) + 1, current_track_id (state w) + 2]))"
proof -
  let ?r1 = "world_of (record_division w True)"
  let ?w1 = "world_of (track_object w seg True)"
  let ?w2 = "world_of (track_object ?w1 seg' True)"
  have s1: "state ?w1 = state ?r1" by (rule track_object_state)
  have "state ?w2 = state (world_of (record_division ?w1 True))" by (rule track_object_state)
  then have l2: "lineage (state ?w2) = lineage (state (world_of (record_division ?w1 True)))"
    and c2: "current_track_id (state ?w2) = current_track_id (state ?w1)"
    by (simp_all add: record_division_track_id)
  have same: "lineage (state (world_of (record_division ?w1 True))) =
              lineage (state (world_of (record_division ?r1 True)))"
    using s1 by (simp add: record_division_def update_lineage_def Let_def world_of_def
        split: option.split)
  have twice: "lineage (state ?w2) = lineage (state ?w1)"
    using l2 same s1 by (simp add: record_division_twice)
  have cur: "current_track_id (state ?w2) = current_track_id (state w)"
    using c2 s1 by (simp add: record_division_track_id)
  have first: "map_of (lineage (state w)) (current_track_id (state w)) = Some [] \<longrightarrow>
      map_of (lineage (state ?w1)) (current_track_id (state w)) =
        Some [current_track_id (state w) + 1, current_track_id (state w) + 2]"
    using record_division_children [of w] s1 by simp
  have forked: "map_of (lineage (state w)) (current_track_id (state w)) = Some cs \<and> cs \<noteq> [] \<longrightarrow>
      record_division w True = Inr w \<and> lineage (state ?w1) = lineage (state w)"
    using s1 by (auto simp: record_division_forked world_of_simps)
  from twice cur first forked show ?thesis by (simp add: Let_def)
qed

theorem record_division_idempotent_witness:
  "map_of (lineage (state tracking_divided)) (current_track_id (state tracking_divided)) =
     Some [2, 3] \<and>
   record_division tracking_divided True = Inr tracking_divided \<and>
   map_of (lineage (state tracking_start)) (current_track_id (state tracking_start)) = Some [] \<and>
   map_of (lineage (state (world_of (track_object tracking_start [[1, 0]] True)))) 1 =
     Some [2, 3] \<and>
   lineage (state (world_of (track_object
       (world_of (track_object tracking_start [[1, 0]] True)) [[1, 1]] True))) =
     lineage (state (world_of (track_object tracking_start [[1, 0]] True)))"
  using record_division_idempotent [of tracking_divided "[2, 3]" "[[1, 0], [0, 0]]" "[[1, 0], [0, 0]]"]
        record_division_idempotent [of tracking_start "[]" "[[1, 0]]" "[[1, 1]]"]
  by (simp add: tracking_divided_def tracking_start_def Let_def)

text \<open>
  Claim C6. A call of \<^verbatim>\<open>commit_track\<close> that returns has appended exactly one entry
  to the committed lineages: the session lineage with every parent and every child shifted
  by the id offset of the commit, the maximum of the committed layer before the commit. A
  call that raises has left the earlier entries in place. Resetting the tracking state
  sets the session lineage to \<open>{1: []}\<close> and keeps the committed lineages, and so does
  tracking an object.
\<close>

theorem commit_track_appends_lineage:
  assumes "distinct (map fst (lineage (state w)))"
    and "off = uint (array_max (committed_objects (viewer w)))"
    and "shifted = map (\<lambda>(parent, children). (parent + off, map (\<lambda>child. child + off) children))
                     (lineage (state w))"
  shows "(commit_track clear_annotations file_error w layer commit_path = Inr w' \<longrightarrow>
            committed_lineages (state w') = committed_lineages (state w) @ [shifted] \<and>
            lineage (state w') = [(1, [])]) \<and>
         (commit_track clear_annotations file_error w layer commit_path = Inl (e, w'') \<longrightarrow>
            committed_lineages (state w'') = committed_lineages (state w) \<or>
            committed_lineages (state w'') = committed_lineages (state w) @ [shifted]) \<and>
         committed_lineages (state (reset_tracking_state w)) = committed_lineages (state w) \<and>
         lineage (state (reset_tracking_state w)) = [(1, [])] \<and>
         committed_lineages (state (world_of (track_object w seg d))) =
           committed_lineages (state w)"
proof -
  have sh: "shift_lineage off (lineage (state w)) = shifted"
    using assms(1,3) by (simp add: shift_lineage_map)
  have a: "commit_track clear_annotations file_error w layer commit_path = Inr w' \<longrightarrow>
            committed_lineages (state w') = committed_lineages (state w) @ [shifted] \<and>
            lineage (state w') = [(1, [])]"
    using commit_track_Inr [of clear_annotations file_error w layer commit_path w'] sh assms(2)
    by simp
  have b: "commit_track clear_annotations file_error w layer commit_path = Inl (e, w'') \<longrightarrow>
            committed_lineages (state w'') = committed_lineages (state w) \<or>
            committed_lineages (state w'') = committed_lineages (state w) @ [shifted]"
    using commit_track_Inl [of clear_annotations file_error w layer commit_path e w''] sh assms(2)
    by simp
  have c: "committed_lineages (state (world_of (track_object w seg d))) =
           committed_lineages (state w)"
    by (simp add: track_object_state record_division_committed)
  from a b c show ?thesis by (simp add: reset_tracking_state_simps)
qed

theorem commit_track_appends_lineage_witness:
  "distinct (map fst (lineage (state tracking_divided))) \<and>
   uint (array_max (committed_objects (viewer tracking_divided))) = 7 \<and>
   (\<exists>w'. commit_track id None tracking_divided Current_object None = Inr w' \<and>
         committed_lineages (state w') = [[(8, [9, 10]), (9, []), (10, [])]] \<and>
         lineage (state w') = [(1, [])]) \<and>
   (\<exists>w'. commit_track id (Some RuntimeError) tracking_divided Current_object (Some ''out'') =
           Inl (RuntimeError, w') \<and>
         committed_lineages (state w') = [[(8, [9, 10]), (9, []), (10, [])]])"
proof -
  let ?ok = "commit_track id None tracking_divided Current_object None"
  let ?raised = "commit_track id (Some RuntimeError) tracking_divided Current_object (Some ''out'')"
  have d: "distinct (map fst (lineage (state tracking_divided)))"
    by (simp add: tracking_divided_def)
  have m: "uint (array_max (committed_objects (viewer tracking_divided))) = 7"
    by (simp add: tracking_divided_def array_max_def)
  have r: "?ok = Inr (world_of ?ok)"
    by (simp add: tracking_divided_def commit_track_def commit_impl_def Let_def bounds_def
        sub_def splice_def array_max_def not_equal_0_def add_where_def assign_where_def
        shape_def layer_data_def set_layer_data_def world_of_def)
  have r': "?raised = Inl (RuntimeError, world_of ?raised)"
    by (simp add: tracking_divided_def commit_track_def commit_impl_def Let_def bounds_def
        sub_def splice_def array_max_def not_equal_0_def add_where_def assign_where_def
        shape_def layer_data_def set_layer_data_def world_of_def)
  from commit_track_appends_lineage [OF d m [symmetric] refl,
      of id None Current_object None "world_of ?ok"] r
  have a: "committed_lineages (state (world_of ?ok)) = [[(8, [9, 10]), (9, []), (10, [])]] \<and>
        lineage (state (world_of ?ok)) = [(1, [])]"
    by (simp add: tracking_divided_def)
  from commit_track_appends_lineage [OF d m [symmetric] refl,
      of id "Some RuntimeError" Current_object "Some ''out''" _ RuntimeError "world_of ?raised"] r'
  have "committed_lineages (state (world_of ?raised)) = committed_lineages (state tracking_divided) \<or>
        committed_lineages (state (world_of ?raised)) = [[(8, [9, 10]), (9, []), (10, [])]]"
    by (simp add: tracking_divided_def)
  moreover have "committed_lineages (state (world_of ?raised)) \<noteq> committed_lineages (state tracking_divided)"
    by (simp add: tracking_divided_def commit_track_def commit_impl_def Let_def bounds_def
        sub_def splice_def array_max_def not_equal_0_def add_where_def assign_where_def
        shape_def layer_data_def set_layer_data_def world_of_def)
  ultimately have b: "committed_lineages (state (world_of ?raised)) =
      [[(8, [9, 10]), (9, []), (10, [])]]"
    by blast
  from d m r a r' b show ?thesis by blast
qed

section \<open>Arrays: helper lemmas\<close>

lemma bounds_le: "fst (bounds bb n) \<le> snd (bounds bb n) \<and> snd (bounds bb n) \<le> n"
  by (auto simp: bounds_def split: option.splits)

lemma length_sub: "snd b \<le> length xs \<Longrightarrow> length (sub b xs) = snd b - fst b"
  by (simp add: sub_def)

lemma sub_nth: "snd b \<le> length xs \<Longrightarrow> k < snd b - fst b \<Longrightarrow> sub b xs ! k = xs ! (fst b + k)"
  by (simp add: sub_def)

lemma length_splice:
  "fst b \<le> snd b \<Longrightarrow> snd b \<le> length xs \<Longrightarrow> length ys = snd b - fst b \<Longrightarrow>
   length (splice b ys xs) = length xs"
  by (simp add: splice_def)

lemma splice_nth:
  "fst b \<le> snd b \<Longrightarrow> snd b \<le> length xs \<Longrightarrow> length ys = snd b - fst b \<Longrightarrow> z < length xs \<Longrightarrow>
   splice b ys xs ! z = (if fst b \<le> z \<and> z < snd b then ys ! (z - fst b) else xs ! z)"
  by (auto simp: splice_def nth_append)

lemma shape_sub_eq: "shape (sub r a) = sub r (shape a)"
  by (simp add: shape_def sub_def take_map drop_map)

lemma shape_sub: "shape a = shape b \<Longrightarrow> shape (sub r a) = shape (sub r b)"
  by (simp add: shape_sub_eq)

lemma shape_length: "shape a = shape b \<Longrightarrow> length a = length b"
  by (metis length_map shape_def)

lemma shape_nth: "shape a = shape b \<Longrightarrow> z < length a \<Longrightarrow> length (a ! z) = length (b ! z)"
  by (metis length_map nth_map shape_def)

lemma shape_not_equal_0: "shape (not_equal_0 a) = shape a"
  by (simp add: shape_def not_equal_0_def)

lemma add_where_eq:
  "add_where (not_equal_0 seg) off seg = map (map (\<lambda>v. if v \<noteq> 0 then v + off else v)) seg"
  by (simp add: add_where_def not_equal_0_def zip_map1 zip_same_conv_map comp_def)

lemma zip3_map:
  "length ms = length ts \<Longrightarrow>
   map (\<lambda>(b, v, t). if b then v else t) (zip (map (\<lambda>v. v \<noteq> 0) ms) (zip (map f ms) ts)) =
   map (\<lambda>(s, t). if s \<noteq> 0 then f s else t) (zip ms ts)"
  by (induction ms ts rule: list_induct2) auto

lemma assign_where_eq:
  "shape target = shape seg \<Longrightarrow>
   assign_where (not_equal_0 seg) (map (map f) seg) target =
   map (\<lambda>(ss, ts). map (\<lambda>(s, t). if s \<noteq> 0 then f s else t) (zip ss ts)) (zip seg target)"
proof (induction seg arbitrary: target)
  case Nil
  then show ?case by (simp add: assign_where_def not_equal_0_def)
next
  case (Cons ss seg)
  then obtain ts target' where t: "target = ts # target'" by (cases target) (auto simp: shape_def)
  with Cons.prems have l: "length ss = length ts" and sh: "shape target' = shape seg"
    by (simp_all add: shape_def)
  from Cons.IH [OF sh] zip3_map [OF l, of f] show ?case
    by (simp add: t assign_where_def not_equal_0_def)
qed

lemma assign_shifted:
  assumes "shape target = shape seg"
  shows "assign_where (not_equal_0 seg) (map (map (\<lambda>v. if v \<noteq> 0 then v + M else v)) seg) target =
         map (\<lambda>(ss, ts). map (\<lambda>(s, t). if s \<noteq> 0 then s + M else t) (zip ss ts)) (zip seg target)"
proof -
  have "(\<lambda>(s, t). if s \<noteq> 0 then (if s \<noteq> 0 then s + M else s) else t) =
        (\<lambda>(s, t). if s \<noteq> 0 then s + M else t)"
    by (auto simp: fun_eq_iff)
  with assign_where_eq [OF assms, of "\<lambda>v. if v \<noteq> 0 then v + M else v"] show ?thesis
    by simp
qed

lemma fold_max_Max: "fold max xs (a::label) = Max (insert a (set xs))"
  using Max.set_eq_fold [of a xs] by simp

lemma array_max_ge: "v \<in> set (concat a) \<Longrightarrow> v \<le> array_max a"
  by (simp add: array_max_def fold_max_Max)

lemma array_max_in: "array_max a = 0 \<or> array_max a \<in> set (concat a)"
proof -
  have "Max (insert 0 (set (concat a))) \<in> insert 0 (set (concat a))"
    by (rule Max_in) simp_all
  then show ?thesis by (simp add: array_max_def fold_max_Max)
qed

lemma array_max_le: "(\<And>v. v \<in> set (concat a) \<Longrightarrow> v \<le> B) \<Longrightarrow> array_max a \<le> B"
  using array_max_in [of a] by auto

lemma nth_in_concat:
  assumes "z < length a" "p < length (a ! z)"
  shows "a ! z ! p \<in> set (concat a)"
proof -
  from assms have "a ! z \<in> set a" "a ! z ! p \<in> set (a ! z)" by simp_all
  then show ?thesis by (simp only: set_concat) blast
qed

lemma in_concat_nth:
  assumes "v \<in> set (concat a)"
  shows "\<exists>z p. z < length a \<and> p < length (a ! z) \<and> a ! z ! p = v"
proof -
  from assms obtain xs where xs: "xs \<in> set a" "v \<in> set xs" by auto
  from xs(1) obtain z where z: "z < length a" "a ! z = xs" by (auto simp: in_set_conv_nth)
  from xs(2) obtain p where p: "p < length xs" "xs ! p = v" by (auto simp: in_set_conv_nth)
  from z p show ?thesis by blast
qed

lemma sub_in_concat:
  assumes "snd b \<le> length data" "fst b \<le> z" "z < snd b" "p < length (data ! z)"
  shows "data ! z ! p \<in> set (concat (sub b data))"
proof -
  from assms have k: "z - fst b < snd b - fst b" by arith
  from assms have "sub b data ! (z - fst b) = data ! z" using sub_nth [OF assms(1) k] by simp
  with nth_in_concat [of "z - fst b" "sub b data" p] k assms show ?thesis
    by (simp add: length_sub)
qed

lemma no_wrap:
  fixes x M B :: label
  assumes "unat M + unat B < 2 ^ 32" "x \<le> B" "x \<noteq> 0"
  shows "unat (x + M) = unat x + unat M" "M < x + M"
proof -
  from assms(2) have "unat x \<le> unat B" by (simp add: word_le_nat_alt)
  with assms(1) have "unat x + unat M < 2 ^ LENGTH(32)" by simp
  then show u: "unat (x + M) = unat x + unat M" by (rule unat_add_lem [THEN iffD1])
  from assms(3) have "0 < unat x" by (simp add: unat_gt_0)
  with u show "M < x + M" by (simp add: word_less_nat_alt)
qed

section \<open>Commit: the committed layer\<close>

lemma set_layer_committed: "committed_objects (set_layer_data layer a v) = committed_objects v"
  by (cases layer) (simp_all add: set_layer_data_def)

lemma commit_impl_returns:
  assumes "shape (committed_objects (viewer w)) = shape (layer_data (viewer w) layer)"
    and "b = bounds (z_range (state w)) (length (committed_objects (viewer w)))"
    and "M = array_max (committed_objects (viewer w))"
  shows "\<exists>seg w'. commit_impl w layer =
            Inr ((uint M, seg, not_equal_0 (sub b (layer_data (viewer w) layer)), z_range (state w)), w') \<and>
          committed_objects (viewer w') =
            splice b
              (map (\<lambda>(ss, ts). map (\<lambda>(s, t). if s \<noteq> 0 then s + M else t) (zip ss ts))
                 (zip (sub b (layer_data (viewer w) layer)) (sub b (committed_objects (viewer w)))))
              (committed_objects (viewer w))"
proof -
  have len: "length (layer_data (viewer w) layer) = length (committed_objects (viewer w))"
    using assms(1) [symmetric] by (rule shape_length)
  have sh: "shape (sub b (committed_objects (viewer w))) = shape (sub b (layer_data (viewer w) layer))"
    using assms(1) by (rule shape_sub)
  show ?thesis
    unfolding commit_impl_def Let_def
    by (simp add: len assms(2) [symmetric] assms(3) [symmetric] add_where_eq shape_not_equal_0
        set_layer_committed sh assign_shifted [OF sh])
qed

lemma committed_length:
  assumes "shape com = shape data" "b = bounds bb (length com)"
    and "new = splice b
              (map (\<lambda>(ss, ts). map (\<lambda>(s, t). if s \<noteq> 0 then s + M else t) (zip ss ts))
                 (zip (sub b data) (sub b com))) com"
  shows "length new = length com"
proof -
  from assms(2) bounds_le [of bb "length com"] have b: "fst b \<le> snd b" "snd b \<le> length com" by simp_all
  from assms(1) have len: "length data = length com" by (rule shape_length [symmetric])
  let ?mid = "map (\<lambda>(ss, ts). map (\<lambda>(s, t). if s \<noteq> 0 then s + M else t) (zip ss ts))
                (zip (sub b data) (sub b com))"
  have ln: "length ?mid = snd b - fst b" by (simp add: b length_sub len)
  show "length new = length com"
    unfolding assms(3) using b ln by (rule length_splice)
qed

lemma committed_nth:
  assumes "shape com = shape data" "b = bounds bb (length com)" "z < length com"
    and "new = splice b
              (map (\<lambda>(ss, ts). map (\<lambda>(s, t). if s \<noteq> 0 then s + M else t) (zip ss ts))
                 (zip (sub b data) (sub b com))) com"
  shows "new ! z =
          (if fst b \<le> z \<and> z < snd b
           then map (\<lambda>(s, t). if s \<noteq> 0 then s + M else t) (zip (data ! z) (com ! z))
           else com ! z)"
proof -
  from assms(2) bounds_le [of bb "length com"] have b: "fst b \<le> snd b" "snd b \<le> length com" by simp_all
  from assms(1) have len: "length data = length com" by (rule shape_length [symmetric])
  let ?mid = "map (\<lambda>(ss, ts). map (\<lambda>(s, t). if s \<noteq> 0 then s + M else t) (zip ss ts))
                (zip (sub b data) (sub b com))"
  have ln: "length ?mid = snd b - fst b" by (simp add: b length_sub len)
  have sp: "new ! z = (if fst b \<le> z \<and> z < snd b then ?mid ! (z - fst b) else com ! z)"
    unfolding assms(4) using b ln assms(3) by (rule splice_nth)
  show ?thesis
  proof (cases "fst b \<le> z \<and> z < snd b")
    case False
    with sp show ?thesis by auto
  next
    case True
    then have k: "z - fst b < snd b - fst b" by arith
    from True have z: "fst b + (z - fst b) = z" by simp
    have "?mid ! (z - fst b) = map (\<lambda>(s, t). if s \<noteq> 0 then s + M else t) (zip (data ! z) (com ! z))"
      using k by (simp add: length_sub b len sub_nth z)
    with sp True show ?thesis by simp
  qed
qed

lemma committed_pixel:
  assumes "shape com = shape data" "b = bounds bb (length com)" "z < length com" "p < length (com ! z)"
    and "new = splice b
              (map (\<lambda>(ss, ts). map (\<lambda>(s, t). if s \<noteq> 0 then s + M else t) (zip ss ts))
                 (zip (sub b data) (sub b com))) com"
  shows "new ! z ! p =
          (if fst b \<le> z \<and> z < snd b \<and> data ! z ! p \<noteq> 0 then data ! z ! p + M else com ! z ! p)"
    and "length (new ! z) = length (com ! z)"
proof -
  from assms(1,3) have l: "length (data ! z) = length (com ! z)"
    using shape_nth [of com data z] by simp
  note n = committed_nth [OF assms(1,2,3,5)]
  from n l assms(4)
  show "new ! z ! p =
          (if fst b \<le> z \<and> z < snd b \<and> data ! z ! p \<noteq> 0 then data ! z ! p + M else com ! z ! p)"
    by simp
  from n l show "length (new ! z) = length (com ! z)" by simp
qed

section \<open>Commit: the shift of the ids\<close>

lemma commit_shift_lemma:
  assumes shape: "shape (committed_objects (viewer w)) = shape (layer_data (viewer w) layer)"
    and b: "b = bounds (z_range (state w)) (length (committed_objects (viewer w)))"
    and M: "M = array_max (committed_objects (viewer w))"
    and no_overflow: "unat M + unat (array_max (sub b (layer_data (viewer w) layer))) < 2 ^ 32"
  shows "\<exists>seg msk w'.
           commit_impl w layer = Inr ((uint M, seg, msk, z_range (state w)), w') \<and>
           length (committed_objects (viewer w')) = length (committed_objects (viewer w)) \<and>
           (\<forall>z < length (committed_objects (viewer w)).
              length (committed_objects (viewer w') ! z) = length (committed_objects (viewer w) ! z) \<and>
              (\<forall>p < length (committed_objects (viewer w) ! z).
                 committed_objects (viewer w') ! z ! p =
                   (if fst b \<le> z \<and> z < snd b \<and> layer_data (viewer w) layer ! z ! p \<noteq> 0
                    then layer_data (viewer w) layer ! z ! p + M
                    else committed_objects (viewer w) ! z ! p) \<and>
                 (fst b \<le> z \<and> z < snd b \<and> layer_data (viewer w) layer ! z ! p \<noteq> 0 \<longrightarrow>
                    unat (committed_objects (viewer w') ! z ! p) =
                      unat (layer_data (viewer w) layer ! z ! p) + unat M \<and>
                    (\<forall>v \<in> set (concat (committed_objects (viewer w))).
                       v < committed_objects (viewer w') ! z ! p)))) \<and>
           M \<le> array_max (committed_objects (viewer w'))"
proof -
  let ?com = "committed_objects (viewer w)"
  let ?data = "layer_data (viewer w) layer"
  from commit_impl_returns [OF shape b M] obtain seg w' where
    r: "commit_impl w layer = Inr ((uint M, seg, not_equal_0 (sub b ?data), z_range (state w)), w')"
    and new: "committed_objects (viewer w') =
            splice b
              (map (\<lambda>(ss, ts). map (\<lambda>(s, t). if s \<noteq> 0 then s + M else t) (zip ss ts))
                 (zip (sub b ?data) (sub b ?com))) ?com"
    by blast
  let ?new = "committed_objects (viewer w')"
  from b bounds_le [of "z_range (state w)" "length ?com"]
  have bb: "fst b \<le> snd b" "snd b \<le> length ?com" by simp_all
  from shape have len: "length ?data = length ?com" by (rule shape_length [symmetric])
  have ln: "length ?new = length ?com"
    by (rule committed_length [OF shape b new])
  have px: "length (?new ! z) = length (?com ! z) \<and>
            (\<forall>p < length (?com ! z).
               ?new ! z ! p =
                 (if fst b \<le> z \<and> z < snd b \<and> ?data ! z ! p \<noteq> 0 then ?data ! z ! p + M
                  else ?com ! z ! p) \<and>
               (fst b \<le> z \<and> z < snd b \<and> ?data ! z ! p \<noteq> 0 \<longrightarrow>
                  unat (?new ! z ! p) = unat (?data ! z ! p) + unat M \<and>
                  (\<forall>v \<in> set (concat ?com). v < ?new ! z ! p)))"
    if z: "z < length ?com" for z
  proof -
    from shape z have lz: "length (?data ! z) = length (?com ! z)"
      using shape_nth [of ?com ?data z] by simp
    have l: "length (?new ! z) = length (?com ! z)"
      using committed_nth [OF shape b z new] lz by simp
    have p: "?new ! z ! p =
                 (if fst b \<le> z \<and> z < snd b \<and> ?data ! z ! p \<noteq> 0 then ?data ! z ! p + M
                  else ?com ! z ! p) \<and>
               (fst b \<le> z \<and> z < snd b \<and> ?data ! z ! p \<noteq> 0 \<longrightarrow>
                  unat (?new ! z ! p) = unat (?data ! z ! p) + unat M \<and>
                  (\<forall>v \<in> set (concat ?com). v < ?new ! z ! p))"
      if p: "p < length (?com ! z)" for p
    proof -
      have eq: "?new ! z ! p =
                 (if fst b \<le> z \<and> z < snd b \<and> ?data ! z ! p \<noteq> 0 then ?data ! z ! p + M
                  else ?com ! z ! p)"
        by (rule committed_pixel(1) [OF shape b z p new])
      have "unat (?new ! z ! p) = unat (?data ! z ! p) + unat M \<and>
                  (\<forall>v \<in> set (concat ?com). v < ?new ! z ! p)"
        if c: "fst b \<le> z \<and> z < snd b \<and> ?data ! z ! p \<noteq> 0"
      proof -
        from c bb len p lz have "?data ! z ! p \<in> set (concat (sub b ?data))"
          by (intro sub_in_concat) simp_all
        then have le: "?data ! z ! p \<le> array_max (sub b ?data)" by (rule array_max_ge)
        from c have nz: "?data ! z ! p \<noteq> 0" by simp
        note nw = no_wrap [OF no_overflow le nz]
        from eq c have n: "?new ! z ! p = ?data ! z ! p + M" by simp
        have "v < ?new ! z ! p" if "v \<in> set (concat ?com)" for v
        proof -
          from that have "v \<le> M" unfolding M by (rule array_max_ge)
          with nw(2) n show ?thesis by simp
        qed
        with nw(1) n show ?thesis by simp
      qed
      then have "fst b \<le> z \<and> z < snd b \<and> ?data ! z ! p \<noteq> 0 \<longrightarrow>
                  unat (?new ! z ! p) = unat (?data ! z ! p) + unat M \<and>
                  (\<forall>v \<in> set (concat ?com). v < ?new ! z ! p)"
        by (rule impI)
      with eq show ?thesis by (rule conjI)
    qed
    have "\<forall>p < length (?com ! z).
               ?new ! z ! p =
                 (if fst b \<le> z \<and> z < snd b \<and> ?data ! z ! p \<noteq> 0 then ?data ! z ! p + M
                  else ?com ! z ! p) \<and>
               (fst b \<le> z \<and> z < snd b \<and> ?data ! z ! p \<noteq> 0 \<longrightarrow>
                  unat (?new ! z ! p) = unat (?data ! z ! p) + unat M \<and>
                  (\<forall>v \<in> set (concat ?com). v < ?new ! z ! p))"
      by (intro allI impI) (rule p)
    with l show ?thesis by (rule conjI)
  qed
  have mono: "M \<le> array_max ?new"
  proof (cases "M = 0")
    case True
    then show ?thesis by simp
  next
    case False
    with array_max_in [of ?com] M have "M \<in> set (concat ?com)" by simp
    from in_concat_nth [OF this] obtain z p
      where zp: "z < length ?com" "p < length (?com ! z)" "?com ! z ! p = M"
      by blast
    note pz = px [OF zp(1)]
    note l = pz [THEN conjunct1]
    note eg = pz [THEN conjunct2, rule_format, OF zp(2)]
    note e = eg [THEN conjunct1]
    note g = eg [THEN conjunct2]
    have "M \<le> ?new ! z ! p"
    proof (cases "fst b \<le> z \<and> z < snd b \<and> ?data ! z ! p \<noteq> 0")
      case True
      from g [THEN mp, OF True, THEN conjunct2] \<open>M \<in> set (concat ?com)\<close>
      have "M < ?new ! z ! p" by (rule bspec)
      then show ?thesis by simp
    next
      case False
      with e zp(3) show ?thesis by simp
    qed
    moreover have "?new ! z ! p \<in> set (concat ?new)"
      using zp(1,2) ln l by (intro nth_in_concat) simp_all
    then have "?new ! z ! p \<le> array_max ?new" by (rule array_max_ge)
    ultimately show ?thesis by simp
  qed
  have all: "\<forall>z < length ?com. length (?new ! z) = length (?com ! z) \<and>
            (\<forall>p < length (?com ! z).
               ?new ! z ! p =
                 (if fst b \<le> z \<and> z < snd b \<and> ?data ! z ! p \<noteq> 0 then ?data ! z ! p + M
                  else ?com ! z ! p) \<and>
               (fst b \<le> z \<and> z < snd b \<and> ?data ! z ! p \<noteq> 0 \<longrightarrow>
                  unat (?new ! z ! p) = unat (?data ! z ! p) + unat M \<and>
                  (\<forall>v \<in> set (concat ?com). v < ?new ! z ! p)))"
    by (intro allI impI) (rule px)
  show ?thesis
  proof (intro exI conjI)
    show "commit_impl w layer =
            Inr ((uint M, seg, not_equal_0 (sub b ?data), z_range (state w)), w')"
      by (rule r)
    show "length ?new = length ?com" by (rule ln)
    show "\<forall>z < length ?com. length (?new ! z) = length (?com ! z) \<and>
            (\<forall>p < length (?com ! z).
               ?new ! z ! p =
                 (if fst b \<le> z \<and> z < snd b \<and> ?data ! z ! p \<noteq> 0 then ?data ! z ! p + M
                  else ?com ! z ! p) \<and>
               (fst b \<le> z \<and> z < snd b \<and> ?data ! z ! p \<noteq> 0 \<longrightarrow>
                  unat (?new ! z ! p) = unat (?data ! z ! p) + unat M \<and>
                  (\<forall>v \<in> set (concat ?com). v < ?new ! z ! p)))"
      by (rule all)
    show "M \<le> array_max ?new" by (rule mono)
  qed
qed

section \<open>Stacking the slices of a volume: helper lemmas\<close>

lemma shifted_le:
  fixes v m offset :: label
  assumes "unat offset + unat m < 2 ^ 32" "v \<le> m"
  shows "(if v \<noteq> 0 then v + offset else v) \<le> m + offset"
proof (cases "v = 0")
  case True
  then show ?thesis by simp
next
  case False
  from assms have a: "unat m + unat offset < 2 ^ LENGTH(32)" by simp
  then have um: "unat (m + offset) = unat m + unat offset" by (rule unat_add_lem [THEN iffD1])
  from assms(2) have le: "unat v \<le> unat m" by (simp add: word_le_nat_alt)
  with a have "unat v + unat offset < 2 ^ LENGTH(32)" by simp
  then have "unat (v + offset) = unat v + unat offset" by (rule unat_add_lem [THEN iffD1])
  with um le False show ?thesis by (simp add: word_le_nat_alt)
qed

lemma stack_slice_max:
  assumes "unat offset + unat (array_max seg) < 2 ^ 32" "array_max seg \<noteq> 0"
  shows "array_max (fst (stack_slice offset seg)) = snd (stack_slice offset seg)"
proof (rule antisym)
  let ?f = "\<lambda>v. if v \<noteq> 0 then v + offset else v"
  have c: "concat (fst (stack_slice offset seg)) = map ?f (concat seg)"
    by (simp add: stack_slice_def map_concat)
  show "array_max (fst (stack_slice offset seg)) \<le> snd (stack_slice offset seg)"
  proof (rule array_max_le)
    fix v assume "v \<in> set (concat (fst (stack_slice offset seg)))"
    then have "v \<in> ?f ` set (concat seg)" unfolding c by (simp only: set_map)
    then obtain u where u: "u \<in> set (concat seg)" "v = ?f u" by (rule imageE) (rule that)
    from u(1) have "u \<le> array_max seg" by (rule array_max_ge)
    from shifted_le [OF assms(1) this] u(2)
    show "v \<le> snd (stack_slice offset seg)" by (simp add: stack_slice_def)
  qed
  from array_max_in [of seg] assms(2) have "array_max seg \<in> set (concat seg)" by simp
  then have "?f (array_max seg) \<in> set (concat (fst (stack_slice offset seg)))"
    unfolding c by (simp only: set_map) (rule imageI)
  then have "?f (array_max seg) \<le> array_max (fst (stack_slice offset seg))" by (rule array_max_ge)
  with assms(2) show "snd (stack_slice offset seg) \<le> array_max (fst (stack_slice offset seg))"
    by (simp add: stack_slice_def)
qed

lemma stack_slice_pixel:
  assumes "unat offset + unat (array_max seg) < 2 ^ 32" "y < length seg" "x < length (seg ! y)"
  shows "fst (stack_slice offset seg) ! y ! x =
           (if seg ! y ! x \<noteq> 0 then seg ! y ! x + offset else 0)"
    and "seg ! y ! x \<noteq> 0 \<Longrightarrow>
           unat (fst (stack_slice offset seg) ! y ! x) = unat (seg ! y ! x) + unat offset \<and>
           offset < fst (stack_slice offset seg) ! y ! x"
proof -
  show e: "fst (stack_slice offset seg) ! y ! x =
           (if seg ! y ! x \<noteq> 0 then seg ! y ! x + offset else 0)"
    using assms(2,3) by (simp add: stack_slice_def)
  assume nz: "seg ! y ! x \<noteq> 0"
  from assms(2,3) have "seg ! y ! x \<in> set (concat seg)" by (rule nth_in_concat)
  then have le: "seg ! y ! x \<le> array_max seg" by (rule array_max_ge)
  from no_wrap [OF assms(1) le nz] e nz
  show "unat (fst (stack_slice offset seg) ! y ! x) = unat (seg ! y ! x) + unat offset \<and>
           offset < fst (stack_slice offset seg) ! y ! x"
    by simp
qed

lemma stack_slice_shape: "shape (fst (stack_slice offset seg)) = shape seg"
  by (simp add: stack_slice_def shape_def)

lemma stack_slice_offset:
  assumes "unat offset + unat (array_max seg) < 2 ^ 32"
  shows "unat (snd (stack_slice offset seg)) = unat (array_max seg) + unat offset"
proof -
  from assms have "unat (array_max seg) + unat offset < 2 ^ LENGTH(32)" by simp
  then show ?thesis unfolding stack_slice_def snd_conv by (rule unat_add_lem [THEN iffD1])
qed

lemma in_concatI: "ys \<in> set xs \<Longrightarrow> v \<in> set ys \<Longrightarrow> v \<in> set (concat xs)"
  by auto

lemma set_concat_update: "set (concat (xs[i := y])) \<subseteq> set (concat xs) \<union> set y"
proof (induction xs arbitrary: i)
  case Nil
  then show ?case by simp
next
  case (Cons a xs)
  then show ?case by (cases i) auto
qed

lemma running_max_kept:
  assumes "unat offset + unat (array_max seg) < 2 ^ 32" "array_max seg \<noteq> 0"
    and "array_max segmentation = offset" "i < length segmentation"
  shows "array_max (segmentation[i := concat (fst (stack_slice offset seg))]) =
           snd (stack_slice offset seg)"
proof (rule antisym)
  let ?new = "concat (fst (stack_slice offset seg))"
  note m = stack_slice_max [OF assms(1,2)]
  from stack_slice_offset [OF assms(1)] have ge: "offset \<le> snd (stack_slice offset seg)"
    by (simp add: word_le_nat_alt)
  show "array_max (segmentation[i := ?new]) \<le> snd (stack_slice offset seg)"
  proof (rule array_max_le)
    fix v assume "v \<in> set (concat (segmentation[i := ?new]))"
    with set_concat_update [of segmentation i ?new]
    have "v \<in> set (concat segmentation) \<or> v \<in> set ?new" by blast
    then show "v \<le> snd (stack_slice offset seg)"
    proof
      assume "v \<in> set (concat segmentation)"
      then have "v \<le> offset" unfolding assms(3) [symmetric] by (rule array_max_ge)
      with ge show ?thesis by simp
    next
      assume "v \<in> set ?new"
      then have "v \<le> array_max (fst (stack_slice offset seg))" by (rule array_max_ge)
      with m show ?thesis by simp
    qed
  qed
  from array_max_in [of "fst (stack_slice offset seg)"] m
  have "snd (stack_slice offset seg) = 0 \<or> snd (stack_slice offset seg) \<in> set ?new" by simp
  then show "snd (stack_slice offset seg) \<le> array_max (segmentation[i := ?new])"
  proof
    assume "snd (stack_slice offset seg) = 0"
    then show ?thesis by simp
  next
    assume "snd (stack_slice offset seg) \<in> set ?new"
    moreover from assms(4) have "?new \<in> set (segmentation[i := ?new])"
      by (rule set_update_memI)
    ultimately have "snd (stack_slice offset seg) \<in> set (concat (segmentation[i := ?new]))"
      by (rule in_concatI [rotated])
    then show ?thesis by (rule array_max_ge)
  qed
qed

lemma array_max_zeros: "array_max (zeros_hw hw) = 0"
proof -
  have "\<And>v. v \<in> set (concat (zeros_hw hw)) \<Longrightarrow> v \<le> 0"
    by (auto simp: zeros_hw_def)
  then have "array_max (zeros_hw hw) \<le> 0" by (rule array_max_le)
  then show ?thesis by simp
qed

lemma instance_segmentation_impl_seg:
  assumes "instance_segmentation_impl initialize generate w i skip = Inr (seg, w')"
  shows "(\<exists>hw. seg = zeros_hw hw) \<or> (\<exists>b. generate b = Some seg)"
proof (cases "prepare_amg initialize w i")
  case (Inl a)
  with assms show ?thesis by (simp add: instance_segmentation_impl_def)
next
  case (Inr w1)
  show ?thesis
  proof (cases "amg (state w1)")
    case No_amg
    with Inr assms show ?thesis by (simp add: instance_segmentation_impl_def)
  next
    case (Amg ob)
    show ?thesis
    proof (cases ob)
      case None
      with Amg Inr assms show ?thesis by (simp add: instance_segmentation_impl_def)
    next
      case (Some b)
      show ?thesis
      proof (cases "generate b")
        case None
        with Some Amg Inr assms have "seg = zeros_hw (image_hw (state w1))"
          by (auto simp: instance_segmentation_impl_def Let_def split: if_splits option.splits sum.splits)
        then show ?thesis by blast
      next
        case (Some s)
        with \<open>ob = Some b\<close> Amg Inr assms have "seg = s"
          by (auto simp: instance_segmentation_impl_def Let_def split: if_splits option.splits sum.splits)
        with Some show ?thesis by blast
      qed
    qed
  qed
qed

lemma segment_volume_loop_step:
  "instance_segmentation_impl initialize generate w (Some (int i)) True = Inr (seg, w1) \<Longrightarrow>
   segment_volume_loop initialize generate (i # rest) offset sgm w =
     (if concat seg = [] then Inl (ValueError, w1)
      else if array_max seg = 0 then
        segment_volume_loop initialize generate rest offset sgm w1
      else if length (concat (fst (stack_slice offset seg))) = length (sgm ! i) then
        segment_volume_loop initialize generate rest (snd (stack_slice offset seg))
          (sgm[i := concat (fst (stack_slice offset seg))]) w1
      else Inl (ValueError, w1))"
  by (simp add: split_beta)

lemma loop_running_maximum:
  assumes bound: "\<forall>b s. generate b = Some s \<longrightarrow> unat (array_max s) \<le> K"
  shows "segment_volume_loop initialize generate slices offset sgm w = Inr ((sgm', offset'), w') \<Longrightarrow>
         array_max sgm = offset \<Longrightarrow> unat offset + length slices * K < 2 ^ 32 \<Longrightarrow>
         \<forall>i \<in> set slices. i < length sgm \<Longrightarrow>
         array_max sgm' = offset'"
proof (induction slices arbitrary: offset sgm w)
  case Nil
  then show ?case by simp
next
  case (Cons i rest)
  from Cons.prems(1) obtain seg w1 where
    r: "instance_segmentation_impl initialize generate w (Some (int i)) True = Inr (seg, w1)"
    by (cases "instance_segmentation_impl initialize generate w (Some (int i)) True") auto
  note u = Cons.prems(1) [unfolded segment_volume_loop_step [OF r]]
  from instance_segmentation_impl_seg [OF r] bound have k: "unat (array_max seg) \<le> K"
    by (auto simp: array_max_zeros)
  have ne: "concat seg \<noteq> []"
  proof
    assume "concat seg = []"
    with u have "Inl (ValueError, w1) = Inr ((sgm', offset'), w')" by (simp only: if_True if_False simp_thms)
    then show False by simp
  qed
  from Cons.prems(4) have il: "i < length sgm" and rl: "\<forall>i \<in> set rest. i < length sgm" by simp_all
  from Cons.prems(3) k have no: "unat offset + unat (array_max seg) < 2 ^ 32"
    and rest_bound: "unat offset + unat (array_max seg) + length rest * K < 2 ^ 32"
    by simp_all
  show ?case
  proof (cases "array_max seg = 0")
    case True
    from u have l0:
      "segment_volume_loop initialize generate rest offset sgm w1 = Inr ((sgm', offset'), w')"
      by (simp only: ne True if_True if_False simp_thms)
    from rest_bound have b0: "unat offset + length rest * K < 2 ^ 32" by simp
    from l0 Cons.prems(2) b0 rl show ?thesis by (rule Cons.IH)
  next
    case False
    let ?seg = "fst (stack_slice offset seg)" and ?off = "snd (stack_slice offset seg)"
    from u have v: "(if length (concat ?seg) = length (sgm ! i) then
        segment_volume_loop initialize generate rest ?off (sgm[i := concat ?seg]) w1
      else Inl (ValueError, w1)) = Inr ((sgm', offset'), w')"
      by (simp only: ne False if_True if_False simp_thms)
    have l: "segment_volume_loop initialize generate rest ?off (sgm[i := concat ?seg]) w1 =
            Inr ((sgm', offset'), w')"
    proof (cases "length (concat ?seg) = length (sgm ! i)")
      case True
      with v show ?thesis by (simp only: if_True if_False simp_thms)
    next
      case False
      with v have "Inl (ValueError, w1) = Inr ((sgm', offset'), w')" by (simp only: if_True if_False simp_thms)
      then show ?thesis by simp
    qed
    have m: "array_max (sgm[i := concat ?seg]) = ?off"
      by (rule running_max_kept [OF no False Cons.prems(2) il])
    from stack_slice_offset [OF no] rest_bound have b: "unat ?off + length rest * K < 2 ^ 32"
      by simp
    from rl have rl': "\<forall>j \<in> set rest. j < length (sgm[i := concat ?seg])" by simp
    from l m b rl' show ?thesis by (rule Cons.IH)
  qed
qed

section \<open>Properties of the object ids\<close>

text \<open>
  Claim C1, as the code has it. Labels are 32-bit words, so the claim holds as long as no
  addition wraps around. For \<^verbatim>\<open>_commit_impl\<close> on a source layer of the shape of the
  committed layer: when the maximum committed id plus the maximum source id inside the
  committed range stays below \<open>2 ^ 32\<close>, the call returns the maximum committed id as
  offset; every pixel of the range with a nonzero source id receives the source id plus
  the offset, which exceeds every id committed before; every other pixel of the committed
  layer keeps its id; and the maximum committed id does not decrease. For one round of the
  loop of \<^verbatim>\<open>_segment_volume\<close>: when the offset plus the maximum of the slice stays below
  \<open>2 ^ 32\<close>, every nonzero id of the slice is shifted by the offset and then exceeds it,
  the new offset is the old one plus the maximum of the slice, and when the offset was the
  maximum of the ids stacked so far, the new offset is the maximum after the slice is
  stored. For the whole loop: when every slice segmentation has a maximum of at most \<open>K\<close>
  and the offset plus \<open>K\<close> times the number of slices stays below \<open>2 ^ 32\<close>, a loop
  that starts with the offset equal to the maximum of the stacked ids ends with it equal.
\<close>

theorem ids_shifted_by_running_maximum:
  "(shape (committed_objects (viewer w)) = shape (layer_data (viewer w) layer) \<and>
    b = bounds (z_range (state w)) (length (committed_objects (viewer w))) \<and>
    M = array_max (committed_objects (viewer w)) \<and>
    unat M + unat (array_max (sub b (layer_data (viewer w) layer))) < 2 ^ 32 \<longrightarrow>
      (\<exists>seg msk w'.
           commit_impl w layer = Inr ((uint M, seg, msk, z_range (state w)), w') \<and>
           length (committed_objects (viewer w')) = length (committed_objects (viewer w)) \<and>
           (\<forall>z < length (committed_objects (viewer w)).
              length (committed_objects (viewer w') ! z) = length (committed_objects (viewer w) ! z) \<and>
              (\<forall>p < length (committed_objects (viewer w) ! z).
                 committed_objects (viewer w') ! z ! p =
                   (if fst b \<le> z \<and> z < snd b \<and> layer_data (viewer w) layer ! z ! p \<noteq> 0
                    then layer_data (viewer w) layer ! z ! p + M
                    else committed_objects (viewer w) ! z ! p) \<and>
                 (fst b \<le> z \<and> z < snd b \<and> layer_data (viewer w) layer ! z ! p \<noteq> 0 \<longrightarrow>
                    unat (committed_objects (viewer w') ! z ! p) =
                      unat (layer_data (viewer w) layer ! z ! p) + unat M \<and>
                    (\<forall>v \<in> set (concat (committed_objects (viewer w))).
                       v < committed_objects (viewer w') ! z ! p)))) \<and>
           M \<le> array_max (committed_objects (viewer w')))) \<and>
   (unat offset + unat (array_max sl) < 2 ^ 32 \<longrightarrow>
      shape (fst (stack_slice offset sl)) = shape sl \<and>
      (\<forall>y < length sl. \<forall>x < length (sl ! y).
         fst (stack_slice offset sl) ! y ! x =
           (if sl ! y ! x \<noteq> 0 then sl ! y ! x + offset else 0) \<and>
         (sl ! y ! x \<noteq> 0 \<longrightarrow>
            unat (fst (stack_slice offset sl) ! y ! x) = unat (sl ! y ! x) + unat offset \<and>
            offset < fst (stack_slice offset sl) ! y ! x)) \<and>
      unat (snd (stack_slice offset sl)) = unat (array_max sl) + unat offset \<and>
      (array_max sl \<noteq> 0 \<and> array_max segmentation = offset \<and> i < length segmentation \<longrightarrow>
         array_max (segmentation[i := concat (fst (stack_slice offset sl))]) =
           snd (stack_slice offset sl))) \<and>
   ((\<forall>st seg. generate st = Some seg \<longrightarrow> unat (array_max seg) \<le> K) \<and>
    array_max stacked = offset0 \<and> unat offset0 + length slices * K < 2 ^ 32 \<and>
    (\<forall>j \<in> set slices. j < length stacked) \<and>
    segment_volume_loop initialize generate slices offset0 stacked w0 =
      Inr ((stacked', offset'), w0') \<longrightarrow>
      array_max stacked' = offset')"
proof (intro conjI impI)
  assume "shape (committed_objects (viewer w)) = shape (layer_data (viewer w) layer) \<and>
    b = bounds (z_range (state w)) (length (committed_objects (viewer w))) \<and>
    M = array_max (committed_objects (viewer w)) \<and>
    unat M + unat (array_max (sub b (layer_data (viewer w) layer))) < 2 ^ 32"
  then have h: "shape (committed_objects (viewer w)) = shape (layer_data (viewer w) layer)"
    "b = bounds (z_range (state w)) (length (committed_objects (viewer w)))"
    "M = array_max (committed_objects (viewer w))"
    "unat M + unat (array_max (sub b (layer_data (viewer w) layer))) < 2 ^ 32"
    by blast+
  show "\<exists>seg msk w'.
           commit_impl w layer = Inr ((uint M, seg, msk, z_range (state w)), w') \<and>
           length (committed_objects (viewer w')) = length (committed_objects (viewer w)) \<and>
           (\<forall>z < length (committed_objects (viewer w)).
              length (committed_objects (viewer w') ! z) = length (committed_objects (viewer w) ! z) \<and>
              (\<forall>p < length (committed_objects (viewer w) ! z).
                 committed_objects (viewer w') ! z ! p =
                   (if fst b \<le> z \<and> z < snd b \<and> layer_data (viewer w) layer ! z ! p \<noteq> 0
                    then layer_data (viewer w) layer ! z ! p + M
                    else committed_objects (viewer w) ! z ! p) \<and>
                 (fst b \<le> z \<and> z < snd b \<and> layer_data (viewer w) layer ! z ! p \<noteq> 0 \<longrightarrow>
                    unat (committed_objects (viewer w') ! z ! p) =
                      unat (layer_data (viewer w) layer ! z ! p) + unat M \<and>
                    (\<forall>v \<in> set (concat (committed_objects (viewer w))).
                       v < committed_objects (viewer w') ! z ! p)))) \<and>
           M \<le> array_max (committed_objects (viewer w'))"
    by (rule commit_shift_lemma [OF h])
next
  assume "unat offset + unat (array_max sl) < 2 ^ 32"
  then show "shape (fst (stack_slice offset sl)) = shape sl"
    by (simp add: stack_slice_shape)
next
  assume a: "unat offset + unat (array_max sl) < 2 ^ 32"
  show "\<forall>y < length sl. \<forall>x < length (sl ! y).
         fst (stack_slice offset sl) ! y ! x =
           (if sl ! y ! x \<noteq> 0 then sl ! y ! x + offset else 0) \<and>
         (sl ! y ! x \<noteq> 0 \<longrightarrow>
            unat (fst (stack_slice offset sl) ! y ! x) = unat (sl ! y ! x) + unat offset \<and>
            offset < fst (stack_slice offset sl) ! y ! x)"
  proof (intro allI impI conjI)
    fix y x assume yx: "y < length sl" "x < length (sl ! y)"
    show "fst (stack_slice offset sl) ! y ! x =
           (if sl ! y ! x \<noteq> 0 then sl ! y ! x + offset else 0)"
      by (rule stack_slice_pixel(1) [OF a yx])
    assume nz: "sl ! y ! x \<noteq> 0"
    from stack_slice_pixel(2) [OF a yx nz]
    show "unat (fst (stack_slice offset sl) ! y ! x) = unat (sl ! y ! x) + unat offset"
      and "offset < fst (stack_slice offset sl) ! y ! x"
      by simp_all
  qed
next
  assume "unat offset + unat (array_max sl) < 2 ^ 32"
  then show "unat (snd (stack_slice offset sl)) = unat (array_max sl) + unat offset"
    by (rule stack_slice_offset)
next
  assume a: "unat offset + unat (array_max sl) < 2 ^ 32"
    and "array_max sl \<noteq> 0 \<and> array_max segmentation = offset \<and> i < length segmentation"
  then have c: "array_max sl \<noteq> 0" "array_max segmentation = offset" "i < length segmentation"
    by blast+
  show "array_max (segmentation[i := concat (fst (stack_slice offset sl))]) =
           snd (stack_slice offset sl)"
    by (rule running_max_kept [OF a c])
next
  assume "(\<forall>st seg. generate st = Some seg \<longrightarrow> unat (array_max seg) \<le> K) \<and>
    array_max stacked = offset0 \<and> unat offset0 + length slices * K < 2 ^ 32 \<and>
    (\<forall>j \<in> set slices. j < length stacked) \<and>
    segment_volume_loop initialize generate slices offset0 stacked w0 =
      Inr ((stacked', offset'), w0')"
  then have l: "\<forall>st seg. generate st = Some seg \<longrightarrow> unat (array_max seg) \<le> K"
    "segment_volume_loop initialize generate slices offset0 stacked w0 =
      Inr ((stacked', offset'), w0')"
    "array_max stacked = offset0" "unat offset0 + length slices * K < 2 ^ 32"
    "\<forall>j \<in> set slices. j < length stacked"
    by blast+
  show "array_max stacked' = offset'"
    by (rule loop_running_maximum [OF l])
qed

theorem ids_shifted_by_running_maximum_witness:
  "shape (committed_objects (viewer tracking_divided)) =
     shape (layer_data (viewer tracking_divided) Current_object) \<and>
   array_max (committed_objects (viewer tracking_divided)) = 7 \<and>
   unat (7 :: label) + unat (array_max (sub (0, 2) (layer_data (viewer tracking_divided) Current_object)))
     < 2 ^ 32 \<and>
   (case commit_impl tracking_divided Current_object of
      Inl e \<Rightarrow> None
    | Inr (r, w') \<Rightarrow> Some (fst r, committed_objects (viewer w'))) =
     Some (7, [[5, 8], [9, 7]]) \<and>
   (\<exists>seg msk w'. commit_impl tracking_divided Current_object = Inr ((7, seg, msk, None), w') \<and>
      7 \<le> array_max (committed_objects (viewer w'))) \<and>
   unat (7 :: label) + unat (array_max [[0, 3], [1, 0]]) < 2 ^ 32 \<and>
   stack_slice 7 [[0, 3], [1, 0]] = ([[0, 10], [8, 0]], 10) \<and>
   unat (snd (stack_slice 7 [[0, 3], [1, 0]])) = unat (array_max [[0, 3], [1, 0]]) + unat (7 :: label) \<and>
   array_max [[0, 0, 0, 0], [7, 0]] = 7 \<and>
   array_max ([[0, 0, 0, 0], [7, 0]][0 := concat (fst (stack_slice 7 [[0, 3], [1, 0]]))]) =
     snd (stack_slice 7 [[0, 3], [1, 0]]) \<and>
   unat (array_max [[5, 6]]) \<le> 6 \<and>
   unat (0 :: label) + length [0 :: nat, 1] * 6 < 2 ^ 32 \<and>
   segment_volume_loop (\<lambda>i. ''s'') (\<lambda>b. Some [[5, 6]]) [0, 1] 0 [[0, 0], [0, 0], [0, 0]]
       cached_session =
     Inr (([[5, 6], [11, 12], [0, 0]], 12),
          returned_world (segment_volume_loop (\<lambda>i. ''s'') (\<lambda>b. Some [[5, 6]]) [0, 1] 0
             [[0, 0], [0, 0], [0, 0]] cached_session)) \<and>
   array_max [[5, 6], [11, 12], [0, 0]] = 12"
proof -
  have g1: "\<forall>st seg. (\<lambda>b. Some [[5, 6]]) st = Some seg \<longrightarrow> unat (array_max seg :: label) \<le> 6"
    by (auto simp: array_max_def)
  have g2: "array_max [[0, 0], [0, 0], [0, 0]] = (0 :: label)"
    by (simp add: array_max_def)
  have g3: "unat (0 :: label) + length [0 :: nat, 1] * 6 < 2 ^ 32"
    by simp
  have g4: "\<forall>j \<in> set [0 :: nat, 1]. j < length [[0, 0], [0, 0], [0 :: label, 0]]"
    by simp
  have g5: "segment_volume_loop (\<lambda>i. ''s'') (\<lambda>b. Some [[5, 6]]) [0, 1] 0
       [[0, 0], [0, 0], [0, 0]] cached_session =
     Inr (([[5, 6], [11, 12], [0, 0]], 12),
          returned_world (segment_volume_loop (\<lambda>i. ''s'') (\<lambda>b. Some [[5, 6]]) [0, 1] 0
             [[0, 0], [0, 0], [0, 0]] cached_session))"
    by (simp add: instance_segmentation_impl_def prepare_amg_def cached_session_def
        volume_session_def tracking_start_def Let_def stack_slice_def array_max_def
        returned_world_def)
  have h1: "shape (committed_objects (viewer tracking_divided)) =
     shape (layer_data (viewer tracking_divided) Current_object)"
    by (simp add: tracking_divided_def shape_def layer_data_def)
  have h2: "(0, 2) = bounds (z_range (state tracking_divided))
                       (length (committed_objects (viewer tracking_divided)))"
    by (simp add: tracking_divided_def bounds_def)
  have h3: "(7 :: label) = array_max (committed_objects (viewer tracking_divided))"
    by (simp add: tracking_divided_def array_max_def)
  have h4: "unat (7 :: label) +
      unat (array_max (sub (0, 2) (layer_data (viewer tracking_divided) Current_object))) < 2 ^ 32"
    by (simp add: tracking_divided_def array_max_def sub_def layer_data_def)
  have h5: "unat (7 :: label) + unat (array_max [[0, 3], [1, 0]]) < 2 ^ 32"
    by (simp add: array_max_def)
  note t = ids_shifted_by_running_maximum
    [where w = tracking_divided and layer = Current_object and b = "(0, 2)" and M = 7
       and offset = 7 and sl = "[[0, 3], [1, 0]]" and segmentation = "[[0, 0, 0, 0], [7, 0]]"
       and i = 0
       and generate = "\<lambda>b. Some [[5, 6]]" and K = 6 and stacked = "[[0, 0], [0, 0], [0, 0]]"
       and ?offset0.0 = 0 and slices = "[0, 1]" and initialize = "\<lambda>i. ''s''"
       and ?w0.0 = cached_session and stacked' = "[[5, 6], [11, 12], [0, 0]]" and offset' = 12
       and w0' = "returned_world (segment_volume_loop (\<lambda>i. ''s'') (\<lambda>b. Some [[5, 6]]) [0, 1] 0
             [[0, 0], [0, 0], [0, 0]] cached_session)"]
  note t1 = t [THEN conjunct1, THEN mp, OF conjI [OF h1 conjI [OF h2 conjI [OF h3 h4]]]]
  note t2 = t [THEN conjunct2, THEN conjunct1, THEN mp, OF h5]
  note t3 = t [THEN conjunct2, THEN conjunct2, THEN mp,
               OF conjI [OF g1 conjI [OF g2 conjI [OF g3 conjI [OF g4 g5]]]]]
  have g6: "array_max [[5, 6], [11, 12], [0, 0]] = (12 :: label)" by (rule t3)
  from t1 obtain seg msk w' where
    r: "commit_impl tracking_divided Current_object =
          Inr ((uint (7 :: label), seg, msk, z_range (state tracking_divided)), w')"
    and m: "7 \<le> array_max (committed_objects (viewer w'))"
    by (elim exE conjE)
  have z: "z_range (state tracking_divided) = None" by (simp add: tracking_divided_def)
  from r m z have e: "\<exists>seg msk w'. commit_impl tracking_divided Current_object =
        Inr ((7, seg, msk, None), w') \<and> 7 \<le> array_max (committed_objects (viewer w'))"
    by (intro exI [of _ seg] exI [of _ msk] exI [of _ w']) simp
  from t2 have s: "unat (snd (stack_slice 7 [[0, 3], [1, 0]])) =
      unat (array_max [[0, 3], [1, 0]]) + unat (7 :: label)"
    by (elim conjE)
  have k1: "array_max [[0, 3], [1, 0]] \<noteq> 0" "array_max [[0, 0, 0, 0], [7, 0]] = (7 :: label)"
    "(0 :: nat) < length [[0, 0, 0, 0], [7 :: label, 0]]"
    by (simp_all add: array_max_def)
  note t4 = t2 [THEN conjunct2, THEN conjunct2, THEN conjunct2, THEN mp,
                OF conjI [OF k1(1) conjI [OF k1(2) k1(3)]]]
  have k2: "array_max ([[0, 0, 0, 0], [7, 0]][0 := concat (fst (stack_slice 7 [[0, 3], [1, 0]]))]) =
      snd (stack_slice 7 [[0, 3], [1, 0]])"
    by (rule t4)
  have ev: "(case commit_impl tracking_divided Current_object of
      Inl e \<Rightarrow> None
    | Inr (r, w') \<Rightarrow> Some (fst r, committed_objects (viewer w'))) =
     Some (7, [[5, 8], [9, 7]])"
    by (simp add: tracking_divided_def commit_impl_def Let_def bounds_def sub_def splice_def
        array_max_def not_equal_0_def add_where_def assign_where_def shape_def layer_data_def
        set_layer_data_def)
  have st: "stack_slice 7 [[0, 3], [1, 0]] = ([[0, 10], [8, 0]], 10)"
    by (simp add: stack_slice_def array_max_def)
  from h1 h3 h4 h5 ev e s st have first:
    "shape (committed_objects (viewer tracking_divided)) =
       shape (layer_data (viewer tracking_divided) Current_object) \<and>
     array_max (committed_objects (viewer tracking_divided)) = 7 \<and>
     unat (7 :: label) +
       unat (array_max (sub (0, 2) (layer_data (viewer tracking_divided) Current_object)))
       < 2 ^ 32 \<and>
     (case commit_impl tracking_divided Current_object of
        Inl e \<Rightarrow> None
      | Inr (r, w') \<Rightarrow> Some (fst r, committed_objects (viewer w'))) =
       Some (7, [[5, 8], [9, 7]]) \<and>
     (\<exists>seg msk w'. commit_impl tracking_divided Current_object = Inr ((7, seg, msk, None), w') \<and>
        7 \<le> array_max (committed_objects (viewer w'))) \<and>
     unat (7 :: label) + unat (array_max [[0, 3], [1, 0]]) < 2 ^ 32 \<and>
     stack_slice 7 [[0, 3], [1, 0]] = ([[0, 10], [8, 0]], 10) \<and>
     unat (snd (stack_slice 7 [[0, 3], [1, 0]])) =
       unat (array_max [[0, 3], [1, 0]]) + unat (7 :: label)"
    by simp
  have g0: "unat (array_max [[5, 6]]) \<le> 6" by (simp add: array_max_def)
  from first k1(2) k2 g0 g3 g5 g6 show ?thesis by blast
qed

text \<open>
  Claim C1 as stated fails when the addition wraps around. The committed layer holds the
  ids \<open>4294967295, 1, 0\<close> and the source layer the ids \<open>1, 0, 2\<close>. The offset is
  4294967295; the source id 1 becomes 0 and erases the committed object with the maximum
  id, the source id 2 becomes 1, the id of an object committed before, and the maximum
  committed id falls from 4294967295 to 1.
\<close>

theorem commit_wraps_around:
  "committed_objects (viewer wrapped_session) = [[4294967295, 1, 0]] \<and>
   current_object (viewer wrapped_session) = [[1, 0, 2]] \<and>
   array_max (committed_objects (viewer wrapped_session)) = 4294967295 \<and>
   (case commit_impl wrapped_session Current_object of
      Inl e \<Rightarrow> None
    | Inr (r, w') \<Rightarrow>
        Some (fst r, committed_objects (viewer w'), array_max (committed_objects (viewer w')))) =
     Some (4294967295, [[0, 1, 1]], 1)"
  by (simp add: wrapped_session_def tracking_start_def commit_impl_def Let_def bounds_def
      sub_def splice_def array_max_def not_equal_0_def add_where_def assign_where_def shape_def
      layer_data_def set_layer_data_def)

section \<open>Widgets: helper lemmas\<close>

lemma call_print_simps:
  "viewer (call_segmenter w) = viewer w" "state (call_segmenter w) = state w"
  "trace (call_segmenter w) = trace w @ [Prompt_segmentation]"
  "viewer (print_skipped w) = viewer w" "state (print_skipped w) = state w"
  "trace (print_skipped w) = trace w @ [Print_skipped]"
  by (simp_all add: call_segmenter_def print_skipped_def)

lemma py_index_less: "py_index n i = Some j \<Longrightarrow> j < n"
  by (auto simp: py_index_def Let_def split: if_splits)








section \<open>Properties of the segmentation widgets\<close>

text \<open>
  Claim C7. When the point prompts of the target slice are the stop marker,
  \<^verbatim>\<open>segment_slice\<close>, \<^verbatim>\<open>segment_frame\<close> and \<^verbatim>\<open>_segment_slice_wigdet\<close> return at once:
  the world is the one before the call, whatever the segmenter would have returned, so no
  layer has changed and the trace holds no call of the segmenter. With prompts for which
  the segmenter returns \<^verbatim>\<open>None\<close> the layers are unchanged as well, but the segmenter was
  called and the message was printed.
\<close>

theorem stop_marker_returns_at_once:
  "segment_slice w z None seg = Inr w \<and>
   segment_frame w z None seg = Inr w \<and>
   segment_slice_wigdet w z None seg = Inr w \<and>
   segment_slice w z (Some points_labels) None = Inr (print_skipped (call_segmenter w)) \<and>
   segment_frame w z (Some points_labels) None = Inr (print_skipped (call_segmenter w)) \<and>
   segment_slice_wigdet w z (Some points_labels) None = Inr (print_skipped (call_segmenter w)) \<and>
   viewer (print_skipped (call_segmenter w)) = viewer w \<and>
   trace (print_skipped (call_segmenter w)) = trace w @ [Prompt_segmentation, Print_skipped]"
  by (simp add: segment_slice_def segment_frame_def segment_slice_wigdet_def call_print_simps)

theorem stop_marker_returns_at_once_witness:
  "segment_slice volume_session 1 (None :: unit option) (Some [7, 7]) = Inr volume_session \<and>
   segment_frame volume_session 1 (None :: unit option) (Some [7, 7]) = Inr volume_session \<and>
   segment_slice_wigdet volume_session 1 (None :: unit option) (Some [7, 7]) = Inr volume_session \<and>
   trace (world_of (segment_slice volume_session 1 (Some ()) None)) =
     trace volume_session @ [Prompt_segmentation, Print_skipped] \<and>
   viewer (world_of (segment_slice volume_session 1 (Some ()) None)) = viewer volume_session"
proof -
  note t = stop_marker_returns_at_once [of volume_session 1 "Some [7, 7]" "()"]
  from t have a: "segment_slice volume_session 1 (None :: unit option) (Some [7, 7]) =
      Inr volume_session"
    and b: "segment_frame volume_session 1 (None :: unit option) (Some [7, 7]) =
      Inr volume_session"
    and c: "segment_slice_wigdet volume_session 1 (None :: unit option) (Some [7, 7]) =
      Inr volume_session"
    and d: "segment_slice volume_session 1 (Some ()) None =
      Inr (print_skipped (call_segmenter volume_session))"
    and e: "viewer (print_skipped (call_segmenter volume_session)) = viewer volume_session"
    and f: "trace (print_skipped (call_segmenter volume_session)) =
      trace volume_session @ [Prompt_segmentation, Print_skipped]"
    by blast+
  from d e f have "trace (world_of (segment_slice volume_session 1 (Some ()) None)) =
     trace volume_session @ [Prompt_segmentation, Print_skipped]"
    and "viewer (world_of (segment_slice volume_session 1 (Some ()) None)) =
     viewer volume_session"
    by (simp_all add: world_of_simps)
  with a b c show ?thesis by blast
qed

text \<open>
  Claim C8. When the segmenter returns \<^verbatim>\<open>None\<close>, each of \<^verbatim>\<open>segment\<close>,
  \<^verbatim>\<open>segment_slice\<close>, \<^verbatim>\<open>segment_frame\<close> and \<^verbatim>\<open>_segment_slice_wigdet\<close> returns normally,
  and the layers of the viewer, \<^verbatim>\<open>current_object\<close> among them, are the ones before the
  call.
\<close>

theorem none_is_skipped:
  "(\<exists>w'. segment w None = Inr w' \<and> viewer w' = viewer w) \<and>
   (\<exists>w'. segment_slice w z pp None = Inr w' \<and> viewer w' = viewer w) \<and>
   (\<exists>w'. segment_frame w z pp None = Inr w' \<and> viewer w' = viewer w) \<and>
   (\<exists>w'. segment_slice_wigdet w z pp None = Inr w' \<and> viewer w' = viewer w)"
  by (cases pp)
     (simp_all add: segment_def segment_slice_def segment_frame_def segment_slice_wigdet_def
        call_print_simps Let_def)

theorem none_is_skipped_witness:
  "(\<exists>w'. segment volume_session None = Inr w' \<and>
         current_object (viewer w') = [[0, 0], [0, 0], [0, 0]]) \<and>
   (\<exists>w'. segment_slice volume_session 2 (Some ()) None = Inr w' \<and>
         current_object (viewer w') = [[0, 0], [0, 0], [0, 0]])"
  using none_is_skipped [of volume_session 2 "Some ()"]
  by (auto simp: volume_session_def tracking_start_def)



section \<open>Volume propagation: helper lemmas\<close>

lemma unique_props: "set (unique p) = set p \<and> sorted (unique p) \<and> distinct (unique p)"
  by (simp add: unique_def sorted_remdups)

lemma object_ids_of_set:
  assumes "object_ids_of with_background p = Inr object_ids"
  shows "set object_ids = (if with_background then set p - {0} else set p)"
proof (cases with_background)
  case False
  with assms unique_props [of p] show ?thesis by (simp add: object_ids_of_def)
next
  case True
  show ?thesis
  proof (cases "unique p")
    case Nil
    with True assms show ?thesis by (simp add: object_ids_of_def)
  next
    case (Cons first others)
    from unique_props [of p] Cons have s: "set p = insert first (set others)"
      and d: "first \<notin> set others" and o: "\<forall>x \<in> set others. first \<le> x"
      by auto
    show ?thesis
    proof (cases "first = 0")
      case z: True
      with True Cons assms have "object_ids = others" by (simp add: object_ids_of_def)
      with s d z True show ?thesis by auto
    next
      case nz: False
      with True Cons assms have e: "object_ids = first # others" by (simp add: object_ids_of_def)
      have "0 \<notin> set others"
      proof
        assume "0 \<in> set others"
        with o have "first \<le> 0" by blast
        with nz show False by simp
      qed
      with e s nz True show ?thesis by auto
    qed
  qed
qed

lemma clear_outside_props:
  "length (clear_outside_start_slice start seg) = length seg"
  "z < start \<Longrightarrow> z < length seg \<Longrightarrow> clear_outside_start_slice start seg ! z = map (\<lambda>v. 0) (seg ! z)"
  "start \<le> z \<Longrightarrow> z < length seg \<Longrightarrow> clear_outside_start_slice start seg ! z = seg ! z"
  by (auto simp: clear_outside_start_slice_def nth_append min_def)

section \<open>Properties of the volume propagation\<close>

text \<open>
  Claim C9. For a valid start slice, \<^verbatim>\<open>_segment_volume_for_auto_segmentation\<close>
  propagates the objects of the start slice from the array \<open>pre\<close>: the layer in which
  every slice below the start slice is zero, and in which the start slice and every slice
  above it are as before the call. The objects propagated are the labels of the start slice
  (without 0 when \<^verbatim>\<open>with_background\<close> is set).
\<close>

theorem start_slice_clearing:
  assumes "py_index (length (auto_segmentation (viewer w))) start_slice = Some start"
    and "object_ids_of with_background (auto_segmentation (viewer w) ! start) = Inr object_ids"
    and "pre = clear_outside_start_slice start (auto_segmentation (viewer w))"
  shows "segment_volume_for_auto_segmentation f w with_background start_slice =
           (case propagate_objects f start_slice object_ids pre of
              Inl (e, seg) \<Rightarrow> Inl (e, w\<lparr>viewer := (viewer w)\<lparr>auto_segmentation := seg\<rparr>\<rparr>)
            | Inr seg \<Rightarrow> Inr (seg, w\<lparr>viewer := (viewer w)\<lparr>auto_segmentation := seg\<rparr>\<rparr>)) \<and>
         length pre = length (auto_segmentation (viewer w)) \<and>
         (\<forall>z < start. pre ! z = map (\<lambda>v. 0) (auto_segmentation (viewer w) ! z)) \<and>
         (\<forall>z. start < z \<and> z < length (auto_segmentation (viewer w)) \<longrightarrow>
              pre ! z = auto_segmentation (viewer w) ! z) \<and>
         pre ! start = auto_segmentation (viewer w) ! start \<and>
         set object_ids =
           (if with_background then set (pre ! start) - {0} else set (pre ! start))"
proof -
  let ?seg = "auto_segmentation (viewer w)"
  from assms(1) have st: "start < length ?seg" by (rule py_index_less)
  have a: "segment_volume_for_auto_segmentation f w with_background start_slice =
           (case propagate_objects f start_slice object_ids pre of
              Inl (e, seg) \<Rightarrow> Inl (e, w\<lparr>viewer := (viewer w)\<lparr>auto_segmentation := seg\<rparr>\<rparr>)
            | Inr seg \<Rightarrow> Inr (seg, w\<lparr>viewer := (viewer w)\<lparr>auto_segmentation := seg\<rparr>\<rparr>))"
    by (simp add: segment_volume_for_auto_segmentation_def Let_def assms)
  have b: "length pre = length ?seg" by (simp add: assms(3) clear_outside_props)
  have c: "\<forall>z < start. pre ! z = map (\<lambda>v. 0) (?seg ! z)"
    using st by (simp add: assms(3) clear_outside_props)
  have d: "\<forall>z. start < z \<and> z < length ?seg \<longrightarrow> pre ! z = ?seg ! z"
    by (simp add: assms(3) clear_outside_props)
  have e: "pre ! start = ?seg ! start"
    using st by (simp add: assms(3) clear_outside_props)
  have g: "set object_ids =
           (if with_background then set (pre ! start) - {0} else set (pre ! start))"
    unfolding e by (rule object_ids_of_set [OF assms(2)])
  from a b c d e g show ?thesis by (intro conjI)
qed

theorem start_slice_clearing_witness:
  "py_index (length (auto_segmentation (viewer volume_session))) 1 = Some 1 \<and>
   object_ids_of True (auto_segmentation (viewer volume_session) ! 1) = Inr [3] \<and>
   auto_segmentation (viewer volume_session) = [[1, 2], [3, 0], [4, 4]] \<and>
   clear_outside_start_slice 1 (auto_segmentation (viewer volume_session)) =
     [[0, 0], [3, 0], [4, 4]] \<and>
   clear_outside_start_slice 1 (auto_segmentation (viewer volume_session)) ! 0 =
     map (\<lambda>v. 0) (auto_segmentation (viewer volume_session) ! 0) \<and>
   clear_outside_start_slice 1 (auto_segmentation (viewer volume_session)) ! 2 =
     auto_segmentation (viewer volume_session) ! 2"
proof -
  have i: "py_index (length (auto_segmentation (viewer volume_session))) 1 = Some 1"
    by (simp add: volume_session_def tracking_start_def py_index_def)
  have o: "object_ids_of True (auto_segmentation (viewer volume_session) ! 1) = Inr [3]"
    by (simp add: volume_session_def tracking_start_def object_ids_of_def unique_def)
  have a: "auto_segmentation (viewer volume_session) = [[1, 2], [3, 0], [4, 4]]"
    by (simp add: volume_session_def tracking_start_def)
  have c: "clear_outside_start_slice 1 (auto_segmentation (viewer volume_session)) =
     [[0, 0], [3, 0], [4, 4]]"
    by (simp add: a clear_outside_start_slice_def)
  note t = start_slice_clearing [OF i o refl]
  from t have "clear_outside_start_slice 1 (auto_segmentation (viewer volume_session)) ! 0 =
     map (\<lambda>v. 0) (auto_segmentation (viewer volume_session) ! 0)"
    by simp
  moreover from t have "clear_outside_start_slice 1 (auto_segmentation (viewer volume_session)) ! 2 =
     auto_segmentation (viewer volume_session) ! 2"
    by (simp add: a)
  ultimately show ?thesis using i o a c by simp
qed

section \<open>Properties of the AMG state cache\<close>

text \<open>
  Claim C4, evaluated on two requests for slice 0. \<^verbatim>\<open>_autosegment_widget\<close> of
  \<^verbatim>\<open>annotator_3d.py\<close> does not store the state it has created: after the first request
  the cache has no entry for slice 0, and the second request initialises the generator
  again. \<^verbatim>\<open>_instance_segmentation_impl\<close> of \<^verbatim>\<open>_widgets.py\<close> stores the state under
  the slice index, and its second request sets the stored state. With a cache folder
  \<^verbatim>\<open>_autosegment_widget\<close> writes the pickle file, which \<^verbatim>\<open>_load_amg_state\<close> would load at
  the next start, and still initialises the generator again on the second request.
\<close>

theorem autosegment_widget_does_not_cache:
  "(let w1 = world_of (autosegment_widget initialize generate volume_session 0);
        w2 = world_of (autosegment_widget initialize generate w1 0)
    in entries (AMG_STATE w1) = [] \<and> entries (AMG_STATE w2) = [] \<and>
       trace w2 =
         [Amg_initialize (Some 0), Amg_generate, Amg_initialize (Some 0), Amg_generate]) \<and>
   (let v1 = returned_world
               (instance_segmentation_impl initialize generate' cached_session (Some 0) False);
        v2 = returned_world (instance_segmentation_impl initialize generate' v1 (Some 0) False)
    in map_option entries (amg_state (state v1)) = Some [(0, initialize (Some 0))] \<and>
       trace v2 =
         [Amg_initialize (Some 0), Amg_generate, Amg_set_state (initialize (Some 0)),
          Amg_generate]) \<and>
   (let u1 = world_of (autosegment_widget initialize generate folder_session 0);
        u2 = world_of (autosegment_widget initialize generate u1 0)
    in pickles u1 = [((''emb/amg_state'', 0), initialize (Some 0))] \<and>
       entries (AMG_STATE u1) = [] \<and>
       trace u2 =
         [Amg_initialize (Some 0), Amg_generate, Amg_initialize (Some 0), Amg_generate] \<and>
       load_amg_state (pickles u1) (Some ''emb'') =
         \<lparr>cache_folder = Some ''emb/amg_state'', entries = [(0, initialize (Some 0))]\<rparr>)"
proof -
  have a: "(let w1 = world_of (autosegment_widget initialize generate volume_session 0);
        w2 = world_of (autosegment_widget initialize generate w1 0)
    in entries (AMG_STATE w1) = [] \<and> entries (AMG_STATE w2) = [] \<and>
       trace w2 =
         [Amg_initialize (Some 0), Amg_generate, Amg_initialize (Some 0), Amg_generate])"
    by (simp add: autosegment_widget_def volume_session_def tracking_start_def Let_def
        py_index_def set_auto_slice_def world_of_def)
  have b: "(let v1 = returned_world
               (instance_segmentation_impl initialize generate' cached_session (Some 0) False);
        v2 = returned_world (instance_segmentation_impl initialize generate' v1 (Some 0) False)
    in map_option entries (amg_state (state v1)) = Some [(0, initialize (Some 0))] \<and>
       trace v2 =
         [Amg_initialize (Some 0), Amg_generate, Amg_set_state (initialize (Some 0)),
          Amg_generate])"
    by (simp add: instance_segmentation_impl_def prepare_amg_def cached_session_def
        volume_session_def tracking_start_def Let_def py_index_def set_auto_slice_def
        returned_world_def split: option.split)
  have c: "(let u1 = world_of (autosegment_widget initialize generate folder_session 0);
        u2 = world_of (autosegment_widget initialize generate u1 0)
    in pickles u1 = [((''emb/amg_state'', 0), initialize (Some 0))] \<and>
       entries (AMG_STATE u1) = [] \<and>
       trace u2 =
         [Amg_initialize (Some 0), Amg_generate, Amg_initialize (Some 0), Amg_generate] \<and>
       load_amg_state (pickles u1) (Some ''emb'') =
         \<lparr>cache_folder = Some ''emb/amg_state'', entries = [(0, initialize (Some 0))]\<rparr>)"
    by (simp add: autosegment_widget_def folder_session_def volume_session_def
        tracking_start_def Let_def py_index_def set_auto_slice_def world_of_def
        load_amg_state_def)
  from a b c show ?thesis by (intro conjI)
qed


end
